theory Spec2Isabelle
  imports Main "HOL-Library.Word" "HOL-Library.AList"
begin

section \<open>JavaScript strings\<close>

text \<open>
  A JavaScript string is a sequence of UTF-16 code units; \<open>length\<close> counts code units,
  as \<^verbatim>\<open>String.prototype.length\<close> does. String literals of the source are written
  \<open>js ''...''\<close>.
\<close>

type_synonym jschar = "16 word"
type_synonym jsstring = "jschar list"

definition js :: "string \<Rightarrow> jsstring" where
  "js s = map (\<lambda>c. of_nat (of_char c)) s"

text \<open>
  ECMAScript LineTerminator code points, and the class \<^verbatim>\<open>\s\<close> of regular
  expressions (WhiteSpace and LineTerminator), which is also what
  \<^verbatim>\<open>String.prototype.trim\<close> strips.
\<close>

definition is_line_terminator :: "jschar \<Rightarrow> bool" where
  "is_line_terminator c = (c = 0x0A \<or> c = 0x0D \<or> c = 0x2028 \<or> c = 0x2029)"

definition is_space :: "jschar \<Rightarrow> bool" where
  "is_space c =
     (c = 0x09 \<or> c = 0x0B \<or> c = 0x0C \<or> c = 0x20 \<or> c = 0xA0 \<or> c = 0x1680
      \<or> (0x2000 \<le> c \<and> c \<le> 0x200A) \<or> c = 0x202F \<or> c = 0x205F \<or> c = 0x3000
      \<or> c = 0xFEFF \<or> is_line_terminator c)"

definition trim :: "jsstring \<Rightarrow> jsstring" where
  "trim s = rev (dropWhile is_space (rev (dropWhile is_space s)))"

text \<open>
  \<^verbatim>\<open>String.prototype.toLowerCase\<close> is a built-in of the host (full Unicode case
  mapping); the functions below take it as the parameter \<open>toLowerCase\<close>.
  \<open>ascii_toLowerCase\<close> is its restriction to ASCII letters, used where a concrete host
  function is needed to evaluate an example.
\<close>

definition ascii_toLowerCase :: "jsstring \<Rightarrow> jsstring" where
  "ascii_toLowerCase s = map (\<lambda>c. if 0x41 \<le> c \<and> c \<le> 0x5A then c + 0x20 else c) s"

text \<open>\<^verbatim>\<open>String(n)\<close> for a natural number \<open>n\<close>.\<close>

fun decimal :: "nat \<Rightarrow> jsstring" where
  "decimal n = (if n < 10 then [0x30 + of_nat n] else decimal (n div 10) @ [0x30 + of_nat (n mod 10)])"

section \<open>The pair list and its gate\<close>

record pair =
  artist :: jsstring
  album :: jsstring

text \<open>The key both \<^verbatim>\<open>addPair\<close> and the callers of \<^verbatim>\<open>uniqueBy\<close> compute:
  \<^verbatim>\<open>`${p.artist.toLowerCase()}::${p.album.toLowerCase()}`\<close>.\<close>

definition pair_key :: "(jsstring \<Rightarrow> jsstring) \<Rightarrow> pair \<Rightarrow> jsstring" where
  "pair_key toLowerCase p = toLowerCase (artist p) @ js ''::'' @ toLowerCase (album p)"

text \<open>
  \<^verbatim>\<open>addPair\<close> (pitchfork_spotify_playlist.mjs 305-313, parser.mjs 18-26; the two are
  the same text). The closure's variable \<^verbatim>\<open>pairs\<close> is passed in and returned. Every
  caller passes strings, on which \<^verbatim>\<open>(x || '')\<close> is the identity.
\<close>

definition addPair :: "(jsstring \<Rightarrow> jsstring) \<Rightarrow> pair list \<Rightarrow> jsstring \<Rightarrow> jsstring \<Rightarrow> pair list" where
  "addPair toLowerCase pairs artist0 album0 =
     (let a = trim artist0; b = trim album0 in
      if a = [] \<or> b = [] \<or> length a < 2 \<or> length b < 2 then pairs
      else
        let key = toLowerCase a @ js ''::'' @ toLowerCase b in
        if \<not> list_ex (\<lambda>p. toLowerCase (artist p) @ js ''::'' @ toLowerCase (album p) = key) pairs
        then pairs @ [\<lparr>artist = a, album = b\<rparr>]
        else pairs)"

text \<open>A sequence of submissions to the gate, in order.\<close>

definition addPairs :: "(jsstring \<Rightarrow> jsstring) \<Rightarrow> pair list \<Rightarrow> (jsstring \<times> jsstring) list \<Rightarrow> pair list" where
  "addPairs toLowerCase pairs subs = foldl (\<lambda>ps (a, b). addPair toLowerCase ps a b) pairs subs"

section \<open>Global replacement with a regular expression\<close>

text \<open>
  \<^verbatim>\<open>s.replace(/re/g, r)\<close> scans \<open>s\<close> from the left: where the expression matches, the
  match is replaced and the scan goes on behind it; elsewhere the character is
  copied. An expression is given by its matcher, which tells for a string how many
  characters a match starting at its first character takes (and what replaces them).
  No expression of the source matches the empty string. The counter \<open>skip\<close> is the
  number of characters of the current match still to be dropped.
\<close>

fun gsub :: "(jsstring \<Rightarrow> (nat \<times> jsstring) option) \<Rightarrow> nat \<Rightarrow> jsstring \<Rightarrow> jsstring" where
  "gsub m skip [] = []"
| "gsub m (Suc k) (c # s) = gsub m k s"
| "gsub m 0 (c # s) =
     (case m (c # s) of
        None \<Rightarrow> c # gsub m 0 s
      | Some (n, r) \<Rightarrow> r @ gsub m (n - 1) s)"

text \<open>\<open>replace_with m s\<close> is \<^verbatim>\<open>s.replace(/re/g, callback)\<close>, \<open>replace re r s\<close> is
  \<^verbatim>\<open>s.replace(/re/g, r)\<close> for a replacement text \<open>r\<close> without \<^verbatim>\<open>$\<close>.\<close>

definition replace_with :: "(jsstring \<Rightarrow> (nat \<times> jsstring) option) \<Rightarrow> jsstring \<Rightarrow> jsstring" where
  "replace_with m s = gsub m 0 s"

definition replace :: "(jsstring \<Rightarrow> nat option) \<Rightarrow> jsstring \<Rightarrow> jsstring \<Rightarrow> jsstring" where
  "replace re r s = gsub (\<lambda>t. map_option (\<lambda>n. (n, r)) (re t)) 0 s"

text \<open>A literal pattern such as \<^verbatim>\<open>/&amp;/\<close>, also the first argument of
  \<^verbatim>\<open>replaceAll\<close>.\<close>

definition re_lit :: "jsstring \<Rightarrow> jsstring \<Rightarrow> nat option" where
  "re_lit lit s = (if lit \<noteq> [] \<and> take (length lit) s = lit then Some (length lit) else None)"

text \<open>
  Under the flag \<^verbatim>\<open>i\<close> (without \<^verbatim>\<open>u\<close>) two code units match when their
  canonical forms agree; a code unit beyond ASCII never canonicalises to an ASCII one,
  so against the ASCII patterns of the source only ASCII letters fold.
\<close>

definition canon :: "jschar \<Rightarrow> jschar" where
  "canon c = (if 0x61 \<le> c \<and> c \<le> 0x7A then c - 0x20 else c)"

definition starts_with_ci :: "jsstring \<Rightarrow> jsstring \<Rightarrow> bool" where
  "starts_with_ci lit s = (length lit \<le> length s \<and> map canon (take (length lit) s) = map canon lit)"

text \<open>The offset of the first case-insensitive occurrence of \<open>lit\<close>.\<close>

fun find_ci :: "jsstring \<Rightarrow> jsstring \<Rightarrow> nat option" where
  "find_ci lit [] = (if lit = [] then Some 0 else None)"
| "find_ci lit (c # s) =
     (if starts_with_ci lit (c # s) then Some 0 else map_option Suc (find_ci lit s))"

text \<open>\<^verbatim>\<open>/<style[\s\S]*?<\/style>/gi\<close> is \<open>re_block (js ''<style'') (js ''</style>'')\<close>:
  the opening literal, then as few characters as possible, then the closing literal.\<close>

definition re_block :: "jsstring \<Rightarrow> jsstring \<Rightarrow> jsstring \<Rightarrow> nat option" where
  "re_block opn cls s =
     (if starts_with_ci opn s
      then map_option (\<lambda>k. length opn + k + length cls) (find_ci cls (drop (length opn) s))
      else None)"

text \<open>\<^verbatim>\<open>/<[^>]+>/g\<close>: the run of \<^verbatim>\<open>[^>]\<close> is greedy, and only the whole run can be
  followed by \<^verbatim>\<open>>\<close>.\<close>

definition re_tag :: "jsstring \<Rightarrow> nat option" where
  "re_tag s =
     (case s of
        [] \<Rightarrow> None
      | c # t \<Rightarrow>
          if c = 0x3C then
            let body = takeWhile (\<lambda>x. x \<noteq> 0x3E) t in
            if body \<noteq> [] \<and> length body < length t then Some (length body + 2) else None
          else None)"

text \<open>\<^verbatim>\<open>/\s+/g\<close>.\<close>

definition re_ws :: "jsstring \<Rightarrow> nat option" where
  "re_ws s = (let n = length (takeWhile is_space s) in if 0 < n then Some n else None)"

section \<open>Text Normalizer\<close>

text \<open>\<^verbatim>\<open>stripHtml\<close> of pitchfork_spotify_playlist.mjs (77-92). \<open>None\<close> is \<^verbatim>\<open>null\<close>.\<close>

definition stripHtml :: "jsstring option \<Rightarrow> jsstring" where
  "stripHtml input =
     (case input of
        None \<Rightarrow> []
      | Some s \<Rightarrow>
          if s = [] then []
          else
            let text = replace (re_block (js ''<style'') (js ''</style>'')) [] s;
                text = replace (re_block (js ''<script'') (js ''</script>'')) [] text;
                text = replace re_tag (js '' '') text;
                text = replace (re_lit (js ''&gt;'')) (js ''>'')
                        (replace (re_lit (js ''&lt;'')) (js ''<'')
                          (replace (re_lit (js ''&#39;'')) [0x27]
                            (replace (re_lit (js ''&quot;'')) [0x22]
                              (replace (re_lit (js ''&amp;'')) (js ''&'')
                                (replace (re_lit (js ''&nbsp;'')) (js '' '') text)))))
            in trim (replace re_ws (js '' '') text))"

text \<open>\<^verbatim>\<open>decodeHtmlEntities\<close> and \<^verbatim>\<open>stripHtml\<close> of src/utils/text.mjs (11-51); the
  table is walked in the order of \<^verbatim>\<open>Object.entries\<close>.\<close>

definition entities :: "(jsstring \<times> jsstring) list" where
  "entities =
     [(js ''&nbsp;'', js '' ''), (js ''&amp;'', js ''&''), (js ''&quot;'', [0x22]),
      (js ''&#39;'', [0x27]), (js ''&lt;'', js ''<''), (js ''&gt;'', js ''>'')]"

definition decodeHtmlEntities :: "jsstring \<Rightarrow> jsstring" where
  "decodeHtmlEntities text = foldl (\<lambda>result (entity, char). replace (re_lit entity) char result) text entities"

definition text_stripHtml :: "jsstring option \<Rightarrow> jsstring" where
  "text_stripHtml input =
     (case input of
        None \<Rightarrow> []
      | Some s \<Rightarrow>
          if s = [] then []
          else
            let text = s;
                text = replace (re_block (js ''<style'') (js ''</style>'')) [] text;
                text = replace (re_block (js ''<script'') (js ''</script>'')) [] text;
                text = replace re_tag (js '' '') text;
                text = decodeHtmlEntities text
            in trim (replace re_ws (js '' '') text))"

text \<open>Whether an expression matches somewhere in a string (no expression of
  \<^verbatim>\<open>stripHtml\<close> matches the empty string).\<close>

fun matches_somewhere :: "(jsstring \<Rightarrow> nat option) \<Rightarrow> jsstring \<Rightarrow> bool" where
  "matches_somewhere re [] = False"
| "matches_somewhere re (c # s) = (re (c # s) \<noteq> None \<or> matches_somewhere re s)"

text \<open>
  Markup left in a text: a tag, that is a match of \<^verbatim>\<open>/<[^>]+>/\<close>, or one of the six
  entities of \<^verbatim>\<open>stripHtml\<close>.
\<close>

definition markup_left :: "jsstring \<Rightarrow> bool" where
  "markup_left s =
     (matches_somewhere re_tag s
      \<or> list_ex (\<lambda>(entity, char). matches_somewhere (re_lit entity) s) entities)"

text \<open>The replacements of \<^verbatim>\<open>stripHtml\<close> before the white-space pass, in order: each an
  expression and the text that replaces its matches.\<close>

definition stripHtml_passes :: "((jsstring \<Rightarrow> nat option) \<times> jsstring) list" where
  "stripHtml_passes =
     [(re_block (js ''<style'') (js ''</style>''), []),
      (re_block (js ''<script'') (js ''</script>''), []),
      (re_tag, js '' '')]
     @ map (\<lambda>(entity, char). (re_lit entity, char)) entities"

text \<open>
  The shape of a string behind \<^verbatim>\<open>replace(/\s+/g, ' ')\<close>: every white-space character
  is a single U+0020 and no two of them are adjacent.
\<close>

fun collapsed :: "jsstring \<Rightarrow> bool" where
  "collapsed [] = True"
| "collapsed [c] = (is_space c \<longrightarrow> c = 0x20)"
| "collapsed (c # d # s) = ((is_space c \<longrightarrow> c = 0x20 \<and> \<not> is_space d) \<and> collapsed (d # s))"

section \<open>Plain-text line fallback\<close>

text \<open>
  \<^verbatim>\<open>text.split(/\n|\r|\r\n|\u2028|\u2029/g)\<close>: at a carriage return the alternative
  \<^verbatim>\<open>\r\<close> is tried before \<^verbatim>\<open>\r\n\<close> and matches, so every separator is one character.
  The split of the empty string is the list of the empty string.
\<close>

fun split_on :: "(jschar \<Rightarrow> bool) \<Rightarrow> jsstring \<Rightarrow> jsstring list" where
  "split_on P [] = [[]]"
| "split_on P (c # s) =
     (if P c then [] # split_on P s
      else (case split_on P s of [] \<Rightarrow> [[c]] | l # ls \<Rightarrow> (c # l) # ls))"

text \<open>\<^verbatim>\<open>text.split(...).map((l) => l.trim()).filter(Boolean)\<close>.\<close>

definition text_lines :: "jsstring \<Rightarrow> jsstring list" where
  "text_lines text =
     filter (\<lambda>l. l \<noteq> [])
       (map trim (split_on (\<lambda>c. c = 0x0A \<or> c = 0x0D \<or> c = 0x2028 \<or> c = 0x2029) text))"

text \<open>\<^verbatim>\<open>dot\<close> is the regular expression \<^verbatim>\<open>.\<close> (no flag \<^verbatim>\<open>s\<close>).\<close>

definition dot :: "jschar \<Rightarrow> bool" where
  "dot c = (\<not> is_line_terminator c)"

text \<open>
  \<^verbatim>\<open>^(.*?)\<close> followed by the rest of an expression: the lazy group takes no character
  first and one more each time the rest fails, never a line terminator. \<open>tail\<close> matches
  the rest of the expression up to \<^verbatim>\<open>$\<close> and returns the second group.
\<close>

fun match_lazy :: "(jsstring \<Rightarrow> jsstring option) \<Rightarrow> jsstring \<Rightarrow> jsstring \<Rightarrow> (jsstring \<times> jsstring) option" where
  "match_lazy tail g [] = (case tail [] of Some r \<Rightarrow> Some (g, r) | None \<Rightarrow> None)"
| "match_lazy tail g (c # s) =
     (case tail (c # s) of
        Some r \<Rightarrow> Some (g, r)
      | None \<Rightarrow> if dot c then match_lazy tail (g @ [c]) s else None)"

text \<open>
  \<^verbatim>\<open>\s*[\u2013-]\s*(.*?)$\<close> (the class holds the en dash U+2013 and the hyphen). A greedy \<^verbatim>\<open>\s*\<close> can only
  be followed by a non-space when it takes the whole run; the last group reaches the
  end of the string, so it matches exactly when no line terminator is left.
\<close>

definition dash_tail :: "jsstring \<Rightarrow> jsstring option" where
  "dash_tail s =
     (case dropWhile is_space s of
        [] \<Rightarrow> None
      | c # t \<Rightarrow>
          if c = 0x2013 \<or> c = 0x2D then
            let r = dropWhile is_space t in
            if list_all dot r then Some r else None
          else None)"

text \<open>\<^verbatim>\<open>/^(.*?)\s*[\u2013-]\s*(.*?)$/\<close>; the result is \<^verbatim>\<open>(m[1], m[2])\<close>.\<close>

definition patternArtistDashAlbum :: "jsstring \<Rightarrow> (jsstring \<times> jsstring) option" where
  "patternArtistDashAlbum line = match_lazy dash_tail [] line"

text \<open>\<^verbatim>\<open>\s+by\s+(.*?)$\<close> under the flag \<^verbatim>\<open>i\<close>.\<close>

definition by_tail :: "jsstring \<Rightarrow> jsstring option" where
  "by_tail s =
     (let t = dropWhile is_space s in
      if takeWhile is_space s \<noteq> [] \<and> starts_with_ci (js ''by'') t then
        let u = drop 2 t; r = dropWhile is_space u in
        if takeWhile is_space u \<noteq> [] \<and> list_all dot r then Some r else None
      else None)"

text \<open>\<^verbatim>\<open>/^(.*?)\s+by\s+(.*?)$/i\<close>.\<close>

definition patternAlbumByArtist :: "jsstring \<Rightarrow> (jsstring \<times> jsstring) option" where
  "patternAlbumByArtist line = match_lazy by_tail [] line"

text \<open>The loop over the lines (pitchfork_spotify_playlist.mjs 420-436).\<close>

fun line_loop :: "(jsstring \<Rightarrow> jsstring) \<Rightarrow> jsstring list \<Rightarrow> pair list \<Rightarrow> pair list" where
  "line_loop toLowerCase [] pairs = pairs"
| "line_loop toLowerCase (line # rest) pairs =
     (if length pairs \<ge> 10 then pairs
      else
        case patternArtistDashAlbum line of
          Some (m1, m2) \<Rightarrow> line_loop toLowerCase rest (addPair toLowerCase pairs (trim m1) (trim m2))
        | None \<Rightarrow>
            (case patternAlbumByArtist line of
               Some (m1, m2) \<Rightarrow> line_loop toLowerCase rest (addPair toLowerCase pairs (trim m2) (trim m1))
             | None \<Rightarrow> line_loop toLowerCase rest pairs))"

section \<open>The markup library\<close>

text \<open>
  cheerio is a library outside the repository; its operations are parameters of the
  model. A selection is the list of its nodes (\<^verbatim>\<open>.first()\<close> is \<open>take 1\<close>, \<^verbatim>\<open>.length\<close> is
  \<open>length\<close>, \<^verbatim>\<open>$(node)\<close> is the list of that node). Every operation may throw: it returns
  \<open>Inl\<close> of the exception or \<open>Inr\<close> of its value. \<^verbatim>\<open>attr\<close> returns \<open>None\<close> for
  \<^verbatim>\<open>undefined\<close>.
\<close>

datatype exn = Exn jsstring

record ('d, 'n) cheerio =
  ch_load :: "jsstring option \<Rightarrow> exn + 'd"
  ch_select :: "'d \<Rightarrow> string \<Rightarrow> exn + 'n list"
  ch_find :: "'d \<Rightarrow> 'n list \<Rightarrow> string \<Rightarrow> exn + 'n list"
  ch_text :: "'d \<Rightarrow> 'n list \<Rightarrow> exn + jsstring"
  ch_closest :: "'d \<Rightarrow> 'n list \<Rightarrow> string \<Rightarrow> exn + 'n list"
  ch_nextAll :: "'d \<Rightarrow> 'n list \<Rightarrow> string \<Rightarrow> exn + 'n list"
  ch_next :: "'d \<Rightarrow> 'n list \<Rightarrow> exn + 'n list"
  ch_parent :: "'d \<Rightarrow> 'n list \<Rightarrow> exn + 'n list"
  ch_attr :: "'d \<Rightarrow> 'n list \<Rightarrow> string \<Rightarrow> exn + jsstring option"

text \<open>Sequencing of two computations of which the first may throw.\<close>

definition and_then :: "exn + 'a \<Rightarrow> ('a \<Rightarrow> exn + 'b) \<Rightarrow> exn + 'b" where
  "and_then r f = (case r of Inl e \<Rightarrow> Inl e | Inr v \<Rightarrow> f v)"

text \<open>
  A statement that works on the list \<^verbatim>\<open>pairs\<close> returns the exception it threw, if any,
  and the list as it then is: what was pushed before a throw stays pushed.
\<close>

type_synonym outcome = "exn option \<times> pair list"

definition then_run :: "outcome \<Rightarrow> (pair list \<Rightarrow> outcome) \<Rightarrow> outcome" where
  "then_run r f = (case r of (Some e, pairs) \<Rightarrow> (Some e, pairs) | (None, pairs) \<Rightarrow> f pairs)"

text \<open>\<^verbatim>\<open>.each(callback)\<close>: the callback runs on every node in order (a plain
  \<^verbatim>\<open>return\<close> of the callback does not stop the iteration); a throw ends it.\<close>

fun each :: "('n \<Rightarrow> pair list \<Rightarrow> outcome) \<Rightarrow> 'n list \<Rightarrow> pair list \<Rightarrow> outcome" where
  "each callback [] pairs = (None, pairs)"
| "each callback (x # xs) pairs = then_run (callback x pairs) (each callback xs)"

text \<open>\<^verbatim>\<open>$(selector).each(callback)\<close>.\<close>

definition select_each ::
  "('d, 'n) cheerio \<Rightarrow> 'd \<Rightarrow> string \<Rightarrow> ('n \<Rightarrow> pair list \<Rightarrow> outcome) \<Rightarrow> pair list \<Rightarrow> outcome" where
  "select_each C d selector callback pairs =
     (case ch_select C d selector of
        Inl e \<Rightarrow> (Some e, pairs)
      | Inr nodes \<Rightarrow> each callback nodes pairs)"

section \<open>Pair Extractor\<close>

text \<open>
  The value the primary strategy passes to \<^verbatim>\<open>addPair\<close> for one
  \<^verbatim>\<open>table.text_block.block-2\<close> (pitchfork_spotify_playlist.mjs 322-340, parser.mjs 34-49).
  The second operand of \<^verbatim>\<open>||\<close> is evaluated only when the first is the empty string.
\<close>

definition block_candidate :: "('d, 'n) cheerio \<Rightarrow> 'd \<Rightarrow> 'n \<Rightarrow> exn + (jsstring \<times> jsstring)" where
  "block_candidate C d block =
     (let root = [block] in
      and_then (ch_find C d root ''p strong a[rel=\"noopener\"]'') (\<lambda>found.
      let artistLink = take 1 found in
      and_then (ch_text C d artistLink) (\<lambda>t1.
      and_then (if trim t1 \<noteq> [] then Inr (trim t1)
                else and_then (ch_find C d root ''strong a'') (\<lambda>found2.
                     and_then (ch_text C d (take 1 found2)) (\<lambda>t2. Inr (trim t2)))) (\<lambda>artist_text.
      and_then (if artistLink \<noteq> [] then
                  and_then (ch_closest C d artistLink ''p'') (\<lambda>artistP.
                  if artistP \<noteq> [] then
                    and_then (ch_nextAll C d artistP ''p'') (\<lambda>following.
                    and_then (ch_find C d following ''em'') (\<lambda>ems.
                    let nextEm = take 1 ems in
                    if nextEm \<noteq> [] then and_then (ch_text C d nextEm) (\<lambda>t. Inr (trim t))
                    else Inr []))
                  else Inr [])
                else Inr []) (\<lambda>album0.
      and_then (if album0 = [] then
                  and_then (ch_find C d root ''em'') (\<lambda>ems.
                  and_then (ch_text C d (take 1 ems)) (\<lambda>t. Inr (trim t)))
                else Inr album0) (\<lambda>album_text.
      Inr (artist_text, album_text)))))))"

text \<open>The callback of the primary strategy.\<close>

definition block_cb ::
  "(jsstring \<Rightarrow> jsstring) \<Rightarrow> ('d, 'n) cheerio \<Rightarrow> 'd \<Rightarrow> 'n \<Rightarrow> pair list \<Rightarrow> outcome" where
  "block_cb toLowerCase C d block pairs =
     (if length pairs \<ge> 10 then (None, pairs)
      else
        case block_candidate C d block of
          Inl e \<Rightarrow> (Some e, pairs)
        | Inr (artist_text, album_text) \<Rightarrow> (None, addPair toLowerCase pairs artist_text album_text))"

text \<open>
  The statement that recurs in \<^verbatim>\<open>findNearestEm\<close>:
  \<^verbatim>\<open>em = x.find('em').first(); if (em && em.length) { const text = em.text().trim(); if (text) return text; }\<close>.
  The result is the text to return, or the empty string when the function goes on.
\<close>

definition em_text :: "('d, 'n) cheerio \<Rightarrow> 'd \<Rightarrow> 'n list \<Rightarrow> exn + jsstring" where
  "em_text C d x =
     and_then (ch_find C d x ''em'') (\<lambda>ems.
     let em = take 1 ems in
     if em \<noteq> [] then and_then (ch_text C d em) (\<lambda>t. Inr (trim t)) else Inr [])"

text \<open>
  \<^verbatim>\<open>for (let i = 0; i < 4 && next && next.length; i++) { ...; next = next.next(); }\<close>
  with the number of iterations left as first argument; the result is the text the
  loop returns, or the empty string when the loop ends.
\<close>

fun scan_next :: "nat \<Rightarrow> ('d, 'n) cheerio \<Rightarrow> 'd \<Rightarrow> 'n list \<Rightarrow> exn + jsstring" where
  "scan_next 0 C d nxt = Inr []"
| "scan_next (Suc k) C d nxt =
     (if nxt = [] then Inr []
      else
        case em_text C d nxt of
          Inl e \<Rightarrow> Inl e
        | Inr text \<Rightarrow>
            if text \<noteq> [] then Inr text
            else (case ch_next C d nxt of Inl e \<Rightarrow> Inl e | Inr nxt' \<Rightarrow> scan_next k C d nxt'))"

text \<open>\<^verbatim>\<open>findNearestEm\<close> of pitchfork_spotify_playlist.mjs (347-376).\<close>

definition findNearestEm :: "('d, 'n) cheerio \<Rightarrow> 'd \<Rightarrow> 'n \<Rightarrow> exn + jsstring" where
  "findNearestEm C d startEl =
     and_then (ch_closest C d [startEl] ''table, td, div'') (\<lambda>container.
     and_then (em_text C d container) (\<lambda>text.
     if text \<noteq> [] then Inr text
     else
       and_then (ch_next C d container) (\<lambda>nxt.
       and_then (scan_next 4 C d nxt) (\<lambda>text.
       if text \<noteq> [] then Inr text
       else
         and_then (ch_parent C d container) (\<lambda>parent.
         if parent \<noteq> [] then
           and_then (ch_next C d container) (\<lambda>sib. scan_next 4 C d sib)
         else Inr [])))))"

text \<open>\<^verbatim>\<open>_findNearestEm\<close> of parser.mjs (56-73).\<close>

definition parser_findNearestEm :: "('d, 'n) cheerio \<Rightarrow> 'd \<Rightarrow> 'n \<Rightarrow> exn + jsstring" where
  "parser_findNearestEm C d startEl =
     and_then (ch_closest C d [startEl] ''table, td, div'') (\<lambda>container.
     and_then (em_text C d container) (\<lambda>text.
     if text \<noteq> [] then Inr text
     else and_then (ch_next C d container) (\<lambda>nxt. scan_next 4 C d nxt)))"

text \<open>The callback of the generic strategy, for either \<^verbatim>\<open>findNearestEm\<close>.\<close>

definition link_cb ::
  "(('d, 'n) cheerio \<Rightarrow> 'd \<Rightarrow> 'n \<Rightarrow> exn + jsstring) \<Rightarrow> (jsstring \<Rightarrow> jsstring) \<Rightarrow>
   ('d, 'n) cheerio \<Rightarrow> 'd \<Rightarrow> 'n \<Rightarrow> pair list \<Rightarrow> outcome" where
  "link_cb findEm toLowerCase C d el pairs =
     (if length pairs \<ge> 10 then (None, pairs)
      else
        case and_then (ch_text C d [el]) (\<lambda>t.
             and_then (findEm C d el) (\<lambda>album_text. Inr (trim t, album_text))) of
          Inl e \<Rightarrow> (Some e, pairs)
        | Inr (artist_text, album_text) \<Rightarrow> (None, addPair toLowerCase pairs artist_text album_text))"

text \<open>The first result of a list of attempts, in order.\<close>

fun first_some :: "('a \<Rightarrow> 'b option) \<Rightarrow> 'a list \<Rightarrow> 'b option" where
  "first_some f [] = None"
| "first_some f (x # xs) = (case f x of Some r \<Rightarrow> Some r | None \<Rightarrow> first_some f xs)"

text \<open>
  \<^verbatim>\<open>\s*[:\u2013-]\s*(.{2,140})$\<close>: the second \<^verbatim>\<open>\s*\<close> is greedy and gives characters back
  one at a time until 2 to 140 characters, none a line terminator, are left.
\<close>

definition pat_tail :: "jsstring \<Rightarrow> jsstring option" where
  "pat_tail s =
     (case dropWhile is_space s of
        [] \<Rightarrow> None
      | c # t \<Rightarrow>
          if c = 0x3A \<or> c = 0x2013 \<or> c = 0x2D then
            first_some
              (\<lambda>j. let r = drop j t in
                    if 2 \<le> length r \<and> length r \<le> 140 \<and> list_all dot r then Some r else None)
              (rev [0 ..< Suc (length (takeWhile is_space t))])
          else None)"

text \<open>
  \<^verbatim>\<open>pat = /^(.{2,80})\s*[:\u2013-]\s*(.{2,140})$/\<close>: the first group is greedy, from the
  longest run of at most 80 characters without line terminator down to 2.
\<close>

definition match_pat :: "jsstring \<Rightarrow> (jsstring \<times> jsstring) option" where
  "match_pat txt =
     first_some (\<lambda>k. map_option (\<lambda>r. (take k txt, r)) (pat_tail (drop k txt)))
       (rev [2 ..< Suc (min 80 (length (takeWhile dot txt)))])"

text \<open>\<^verbatim>\<open>for (const txt of candidates) { ... }\<close> of the image strategy.\<close>

fun img_candidates :: "(jsstring \<Rightarrow> jsstring) \<Rightarrow> jsstring list \<Rightarrow> pair list \<Rightarrow> pair list" where
  "img_candidates toLowerCase [] pairs = pairs"
| "img_candidates toLowerCase (txt # rest) pairs =
     (case match_pat txt of
        Some (m1, m2) \<Rightarrow>
          let pairs' = addPair toLowerCase pairs m1 m2 in
          if length pairs' \<ge> 10 then pairs' else img_candidates toLowerCase rest pairs'
      | None \<Rightarrow> img_candidates toLowerCase rest pairs)"

text \<open>The callback of the image strategy.\<close>

definition img_cb ::
  "(jsstring \<Rightarrow> jsstring) \<Rightarrow> ('d, 'n) cheerio \<Rightarrow> 'd \<Rightarrow> 'n \<Rightarrow> pair list \<Rightarrow> outcome" where
  "img_cb toLowerCase C d img pairs =
     (if length pairs \<ge> 10 then (None, pairs)
      else
        case ch_attr C d [img] ''alt'' of
          Inl e \<Rightarrow> (Some e, pairs)
        | Inr a \<Rightarrow>
            (case ch_attr C d [img] ''title'' of
               Inl e \<Rightarrow> (Some e, pairs)
             | Inr t \<Rightarrow>
                 let alt = trim (case a of None \<Rightarrow> [] | Some v \<Rightarrow> v);
                     title = trim (case t of None \<Rightarrow> [] | Some v \<Rightarrow> v);
                     candidates = filter (\<lambda>x. x \<noteq> []) [alt, title]
                 in (None, img_candidates toLowerCase candidates pairs)))"

text \<open>
  The body of the \<^verbatim>\<open>try\<close> block up to the image strategy, which the two extractors
  share but for their \<^verbatim>\<open>findNearestEm\<close>: the exception that left the block, if any, and
  \<^verbatim>\<open>pairs\<close> at that moment.
\<close>

definition markup ::
  "(('d, 'n) cheerio \<Rightarrow> 'd \<Rightarrow> 'n \<Rightarrow> exn + jsstring) \<Rightarrow> (jsstring \<Rightarrow> jsstring) \<Rightarrow>
   ('d, 'n) cheerio \<Rightarrow> jsstring option \<Rightarrow> outcome" where
  "markup findEm toLowerCase C rawBody =
     (case ch_load C rawBody of
        Inl e \<Rightarrow> (Some e, [])
      | Inr d \<Rightarrow>
          then_run (select_each C d ''table.text_block.block-2'' (block_cb toLowerCase C d) [])
            (\<lambda>pairs.
          then_run (if length pairs < 10
                    then select_each C d ''strong a'' (link_cb findEm toLowerCase C d) pairs
                    else (None, pairs))
            (\<lambda>pairs.
          if length pairs < 10
          then select_each C d ''img[alt], img[title]'' (img_cb toLowerCase C d) pairs
          else (None, pairs))))"

text \<open>The plain-text fallback (pitchfork_spotify_playlist.mjs 411-438), entered with
  \<^verbatim>\<open>pairs\<close> as the \<^verbatim>\<open>try\<close> block left it.\<close>

definition fallback :: "(jsstring \<Rightarrow> jsstring) \<Rightarrow> jsstring option \<Rightarrow> pair list \<Rightarrow> pair list" where
  "fallback toLowerCase rawBody pairs =
     (let text = stripHtml rawBody;
          lines = text_lines text
      in take 10 (line_loop toLowerCase lines pairs))"

text \<open>
  \<^verbatim>\<open>extractAlbumArtistPairs\<close> of pitchfork_spotify_playlist.mjs (302-439). The result is
  \<open>Inr\<close> of the returned list, or \<open>Inl\<close> of an exception that leaves the function.
\<close>

definition extractAlbumArtistPairs ::
  "(jsstring \<Rightarrow> jsstring) \<Rightarrow> ('d, 'n) cheerio \<Rightarrow> jsstring option \<Rightarrow> exn + pair list" where
  "extractAlbumArtistPairs toLowerCase C rawBody =
     (case markup findNearestEm toLowerCase C rawBody of
        (None, pairs) \<Rightarrow>
          if length pairs \<ge> 1 then Inr (take 10 pairs)
          else Inr (fallback toLowerCase rawBody pairs)
      | (Some e, pairs) \<Rightarrow> Inr (fallback toLowerCase rawBody pairs))"

text \<open>
  \<^verbatim>\<open>extractAlbumArtistPairs\<close> of src/services/email/parser.mjs (15-105): the handler logs
  a warning and the list is returned as it is.
\<close>

definition parser_extractAlbumArtistPairs ::
  "(jsstring \<Rightarrow> jsstring) \<Rightarrow> ('d, 'n) cheerio \<Rightarrow> jsstring option \<Rightarrow> exn + pair list" where
  "parser_extractAlbumArtistPairs toLowerCase C rawBody =
     (case markup parser_findNearestEm toLowerCase C rawBody of
        (None, pairs) \<Rightarrow> Inr pairs
      | (Some err, pairs) \<Rightarrow> Inr pairs)"

text \<open>
  A document in which no selector finds anything, as cheerio gives for a body without
  tables, links in bold runs and images; \<^verbatim>\<open>load\<close> throws on \<^verbatim>\<open>null\<close>. Used to evaluate the
  extractors on concrete bodies.
\<close>

definition plain_document :: "(unit, unit) cheerio" where
  "plain_document =
     \<lparr>ch_load = (\<lambda>body. case body of None \<Rightarrow> Inl (Exn (js ''cheerio.load() expects a string'')) | Some s \<Rightarrow> Inr ()),
      ch_select = (\<lambda>d selector. Inr []),
      ch_find = (\<lambda>d x selector. Inr []),
      ch_text = (\<lambda>d x. Inr []),
      ch_closest = (\<lambda>d x selector. Inr []),
      ch_nextAll = (\<lambda>d x selector. Inr []),
      ch_next = (\<lambda>d x. Inr []),
      ch_parent = (\<lambda>d x. Inr []),
      ch_attr = (\<lambda>d x name. Inr None)\<rparr>"

text \<open>
  A newsletter body made of cards, one table for each pair of an artist text and an
  album text:
  \<^verbatim>\<open><table class="text_block block-2"><tr><td><p><strong><a rel="noopener">ARTIST</a></strong></p><p><em>ALBUM</em></p></td></tr></table>\<close>.
\<close>

definition card_html_of :: "jsstring \<times> jsstring \<Rightarrow> jsstring" where
  "card_html_of texts =
     js ''<table class=\"text_block block-2\"><tr><td><p><strong><a rel=\"noopener\">'' @ fst texts
     @ js ''</a></strong></p><p><em>'' @ snd texts @ js ''</em></p></td></tr></table>''"

definition newsletter_html :: "(jsstring \<times> jsstring) list \<Rightarrow> jsstring" where
  "newsletter_html cards = concat (map card_html_of cards)"

text \<open>
  What cheerio answers on such bodies. The loaded document is the list of the cards of
  the body, looked up among the newsletters \<open>known\<close>; a body that is none of them loads
  as the document without cards, in which no selector finds anything. A node is the
  pair of its kind and the number of its card; the kinds are 0 the table, 1 the link,
  2 the emphasised run, 3 and 4 the first and the second paragraph, 5 the cell and
  6 the row. The link is inside both the table and the cell, and the cell is its
  closest ancestor among tables, cells and divisions; the second paragraph follows the
  first; the cell has no sibling and the row is its parent. \<^verbatim>\<open>load\<close> throws on \<^verbatim>\<open>null\<close>.
\<close>

definition newsletter_cheerio ::
  "(jsstring \<times> jsstring) list list \<Rightarrow> ((jsstring \<times> jsstring) list, nat \<times> nat) cheerio" where
  "newsletter_cheerio known =
     \<lparr>ch_load = (\<lambda>body. case body of
                    None \<Rightarrow> Inl (Exn (js ''cheerio.load() expects a string''))
                  | Some s \<Rightarrow>
                      Inr (case List.find (\<lambda>cards. newsletter_html cards = s) known of
                             None \<Rightarrow> []
                           | Some cards \<Rightarrow> cards)),
      ch_select = (\<lambda>d selector.
         if selector = ''table.text_block.block-2'' then Inr (map (Pair 0) [0 ..< length d])
         else if selector = ''strong a'' then Inr (map (Pair 1) [0 ..< length d])
         else Inr []),
      ch_find = (\<lambda>d x selector.
         case x of
           [(k, i)] \<Rightarrow>
             if (k = 0 \<or> k = 5 \<or> k = 6)
                \<and> (selector = ''p strong a[rel=\"noopener\"]'' \<or> selector = ''strong a'') then Inr [(1, i)]
             else if (k = 0 \<or> k = 4 \<or> k = 5 \<or> k = 6) \<and> selector = ''em'' then Inr [(2, i)]
             else Inr []
         | _ \<Rightarrow> Inr []),
      ch_text = (\<lambda>d x.
         case x of
           [(k, i)] \<Rightarrow>
             if i < length d \<and> k = 1 then Inr (fst (d ! i))
             else if i < length d \<and> k = 2 then Inr (snd (d ! i))
             else Inr []
         | _ \<Rightarrow> Inr []),
      ch_closest = (\<lambda>d x selector.
         case x of
           [(k, i)] \<Rightarrow>
             if k = 1 \<and> selector = ''p'' then Inr [(3, i)]
             else if k = 1 \<and> selector = ''table, td, div'' then Inr [(5, i)]
             else Inr []
         | _ \<Rightarrow> Inr []),
      ch_nextAll = (\<lambda>d x selector.
         case x of
           [(k, i)] \<Rightarrow> if k = 3 \<and> selector = ''p'' then Inr [(4, i)] else Inr []
         | _ \<Rightarrow> Inr []),
      ch_next = (\<lambda>d x. Inr []),
      ch_parent = (\<lambda>d x.
         case x of
           [(k, i)] \<Rightarrow> if k = 5 then Inr [(6, i)] else Inr []
         | _ \<Rightarrow> Inr []),
      ch_attr = (\<lambda>d x name. Inr None)\<rparr>"

text \<open>
  The newsletters of the examples: one card, the same card in capitals, and twelve
  cards \<^verbatim>\<open>Artist 0\<close> / \<^verbatim>\<open>Album 0\<close> to \<^verbatim>\<open>Artist 11\<close> / \<^verbatim>\<open>Album 11\<close>.
\<close>

definition pink_floyd_card :: "jsstring \<times> jsstring" where
  "pink_floyd_card = (js ''Pink Floyd'', js ''The Dark Side of the Moon'')"

definition capitals_card :: "jsstring \<times> jsstring" where
  "capitals_card = (js ''PINK FLOYD'', js ''THE DARK SIDE OF THE MOON'')"

definition twelve_cards :: "(jsstring \<times> jsstring) list" where
  "twelve_cards = map (\<lambda>i. (js ''Artist '' @ decimal i, js ''Album '' @ decimal i)) [0 ..< 12]"

definition card_html :: jsstring where
  "card_html = newsletter_html [pink_floyd_card]"

definition card_html_capitals :: jsstring where
  "card_html_capitals = newsletter_html [capitals_card]"

definition twelve_cards_html :: jsstring where
  "twelve_cards_html = newsletter_html twelve_cards"

definition card_document :: "((jsstring \<times> jsstring) list, nat \<times> nat) cheerio" where
  "card_document = newsletter_cheerio [[pink_floyd_card], [capitals_card], twelve_cards]"

text \<open>
  A body in which the markup strategies find no candidate: the document loads, and
  the three selectors the strategies start from select nothing.
\<close>

definition no_candidates :: "('d, 'n) cheerio \<Rightarrow> jsstring option \<Rightarrow> bool" where
  "no_candidates C rawBody =
     (case ch_load C rawBody of
        Inl e \<Rightarrow> False
      | Inr d \<Rightarrow>
          ch_select C d ''table.text_block.block-2'' = Inr []
          \<and> ch_select C d ''strong a'' = Inr []
          \<and> ch_select C d ''img[alt], img[title]'' = Inr [])"

section \<open>MIME encoded words\<close>

text \<open>
  \<^verbatim>\<open>/=\?([^?]+)\?([QqBb])\?([^?]+)\?=/g\<close> at the start of a string: the length of the match
  and the groups \<^verbatim>\<open>charset\<close>, \<^verbatim>\<open>enc\<close> and \<^verbatim>\<open>text\<close>. A run \<^verbatim>\<open>[^?]+\<close> can only be followed by
  \<^verbatim>\<open>?\<close> when it is taken whole.
\<close>

definition re_encoded_word :: "jsstring \<Rightarrow> (nat \<times> jsstring \<times> jschar \<times> jsstring) option" where
  "re_encoded_word s =
     (if take 2 s = js ''=?'' then
        let charset = takeWhile (\<lambda>c. c \<noteq> 0x3F) (drop 2 s) in
        if charset \<noteq> [] then
          (case drop (2 + length charset) s of
             q1 # enc # q2 # rest \<Rightarrow>
               if q1 = 0x3F \<and> (enc = 0x51 \<or> enc = 0x71 \<or> enc = 0x42 \<or> enc = 0x62) \<and> q2 = 0x3F then
                 let text = takeWhile (\<lambda>c. c \<noteq> 0x3F) rest in
                 if text \<noteq> [] \<and> take 2 (drop (length text) rest) = js ''?=''
                 then Some (2 + length charset + 3 + length text + 2, charset, enc, text)
                 else None
               else None
           | _ \<Rightarrow> None)
        else None
      else None)"

text \<open>The value of a hexadecimal digit, \<^verbatim>\<open>[0-9A-Fa-f]\<close>.\<close>

definition hex_digit :: "jschar \<Rightarrow> jschar option" where
  "hex_digit c =
     (if 0x30 \<le> c \<and> c \<le> 0x39 then Some (c - 0x30)
      else if 0x41 \<le> c \<and> c \<le> 0x46 then Some (c - 0x41 + 10)
      else if 0x61 \<le> c \<and> c \<le> 0x66 then Some (c - 0x61 + 10)
      else None)"

text \<open>\<^verbatim>\<open>/=([0-9A-Fa-f]{2})/g\<close> with its callback
  \<^verbatim>\<open>(_, hex) => String.fromCharCode(parseInt(hex, 16))\<close>.\<close>

definition re_hex_escape :: "jsstring \<Rightarrow> (nat \<times> jsstring) option" where
  "re_hex_escape s =
     (case s of
        e # h1 # h2 # rest \<Rightarrow>
          if e = 0x3D then
            (case (hex_digit h1, hex_digit h2) of
               (Some a, Some b) \<Rightarrow> Some (3, [16 * a + b])
             | _ \<Rightarrow> None)
          else None
      | _ \<Rightarrow> None)"

text \<open>
  \<^verbatim>\<open>try { ... } catch (_) { ... }\<close> around a computation that returns a value: the value
  of the block, or what the handler returns for the exception thrown.
\<close>

definition try_catch :: "exn + 'a \<Rightarrow> (exn \<Rightarrow> 'a) \<Rightarrow> 'a" where
  "try_catch block handler = (case block of Inl e \<Rightarrow> handler e | Inr v \<Rightarrow> v)"

text \<open>
  The callback of \<^verbatim>\<open>decodeMimeEncodedWords\<close> (text.mjs 62-82, the same text in
  pitchfork_spotify_playlist.mjs 96-111). \<^verbatim>\<open>Buffer.from(text, 'base64').toString('utf8')\<close>
  belongs to the host and is the parameter \<open>base64_utf8\<close>; it returns a string for
  every string (characters outside the base64 alphabet are skipped, bytes that are
  not UTF-8 become U+FFFD) and never throws, and neither does any other statement of
  the block.
\<close>

definition decode_word :: "(jsstring \<Rightarrow> jsstring) \<Rightarrow> jschar \<Rightarrow> jsstring \<Rightarrow> jsstring" where
  "decode_word base64_utf8 enc text =
     try_catch
       (if enc = 0x42 \<or> enc = 0x62 then Inr (base64_utf8 text)
        else Inr (replace_with re_hex_escape (replace (re_lit (js ''_'')) (js '' '') text)))
       (\<lambda>e. text)"

definition decodeMimeEncodedWords :: "(jsstring \<Rightarrow> jsstring) \<Rightarrow> jsstring option \<Rightarrow> jsstring" where
  "decodeMimeEncodedWords base64_utf8 str =
     (case str of
        None \<Rightarrow> []
      | Some s \<Rightarrow>
          if s = [] then []
          else replace_with
                 (\<lambda>t. map_option (\<lambda>(n, charset, enc, text). (n, decode_word base64_utf8 enc text))
                        (re_encoded_word t)) s)"

text \<open>
  The host's decoder on the two payloads of the examples: \<^verbatim>\<open>SGk=\<close> is the base64 text of
  \<^verbatim>\<open>Hi\<close>, and \<^verbatim>\<open>!!!\<close>, in which no character belongs to the base64 alphabet, decodes to
  the empty string. No other payload occurs in the examples.
\<close>

definition sample_base64 :: "jsstring \<Rightarrow> jsstring" where
  "sample_base64 text = (if text = js ''SGk='' then js ''Hi'' else [])"

section \<open>Cross-Email Aggregator\<close>

text \<open>\<^verbatim>\<open>uniqueBy(array, keyFn)\<close> (pitchfork_spotify_playlist.mjs 137-148, collection
  utilities 119-132): the loop with its variables \<^verbatim>\<open>seen\<close> and \<^verbatim>\<open>result\<close>.\<close>

fun uniqueBy_loop :: "('a \<Rightarrow> 'k) \<Rightarrow> 'a list \<Rightarrow> 'k set \<Rightarrow> 'a list \<Rightarrow> 'a list" where
  "uniqueBy_loop keyFn [] seen result = result"
| "uniqueBy_loop keyFn (item # rest) seen result =
     (let key = keyFn item in
      if key \<notin> seen then uniqueBy_loop keyFn rest (insert key seen) (result @ [item])
      else uniqueBy_loop keyFn rest seen result)"

definition uniqueBy :: "'a list \<Rightarrow> ('a \<Rightarrow> 'k) \<Rightarrow> 'a list" where
  "uniqueBy array keyFn = uniqueBy_loop keyFn array {} []"

text \<open>
  A \<^verbatim>\<open>Date\<close> is either invalid or has a local calendar year (\<^verbatim>\<open>getFullYear\<close>) and a month
  index from 0 (\<^verbatim>\<open>getMonth\<close>).
\<close>

datatype jsdate = InvalidDate | Date int nat

definition padStart2 :: "jsstring \<Rightarrow> jsstring" where
  "padStart2 s = replicate (2 - length s) 0x30 @ s"

text \<open>\<^verbatim>\<open>formatMonthYYYYMM\<close> (pitchfork_spotify_playlist.mjs 131-135, date utilities 23-27).\<close>

definition formatMonthYYYYMM :: "jsdate \<Rightarrow> jsstring" where
  "formatMonthYYYYMM date =
     (case date of
        InvalidDate \<Rightarrow> js ''NaN-NaN''
      | Date year month \<Rightarrow>
          let yyyy = (if year < 0 then js ''-'' @ decimal (nat (- year)) else decimal (nat year));
              mm = padStart2 (decimal (month + 1))
          in yyyy @ js ''-'' @ mm)"

text \<open>
  What \<^verbatim>\<open>mail.uid\<close> can hold: \<^verbatim>\<open>null\<close>, an integral number, or a number that is not
  integral (the fetch step can leave an infinity there).
\<close>

datatype jsvalue = Null | Integer int | NonInteger

definition Number_isInteger :: "jsvalue \<Rightarrow> bool" where
  "Number_isInteger v = (case v of Integer i \<Rightarrow> True | _ \<Rightarrow> False)"

record email =
  mail_uid :: jsvalue
  mail_date :: jsdate
  mail_from :: jsstring
  mail_subject :: jsstring
  mail_body :: jsstring

text \<open>
  The contract of the mailbox collaborator for the UID of an email (spec section 6,
  \<^verbatim>\<open>uid: positive integer | null\<close>): the UIDs of a mailbox are positive integers, and the
  fetch step (fetch.mjs 73-77 and 100) hands over the UID the server sent, or \<^verbatim>\<open>null\<close>
  where it sent none, 0 or no number.
\<close>

definition uid_contract :: "email \<Rightarrow> bool" where
  "uid_contract mail = (case mail_uid mail of Null \<Rightarrow> True | Integer i \<Rightarrow> 0 < i | NonInteger \<Rightarrow> False)"

definition EXPECTED_FROM :: jsstring where
  "EXPECTED_FROM = js ''newsletter@pitchfork.com''"

definition EXPECTED_SUBJECT :: jsstring where
  "EXPECTED_SUBJECT = js ''10 Best Reviewed Albums of the Week''"

text \<open>\<^verbatim>\<open>s.includes(t)\<close>.\<close>

fun String_includes :: "jsstring \<Rightarrow> jsstring \<Rightarrow> bool" where
  "String_includes [] t = (t = [])"
| "String_includes (c # s) t = (take (length t) (c # s) = t \<or> String_includes s t)"

text \<open>
  The state of the loop over the emails: the \<^verbatim>\<open>Map\<close> from month to pairs in insertion
  order, the \<^verbatim>\<open>Set\<close> of UIDs in insertion order, and the UIDs the warnings were logged
  for.
\<close>

record aggregation =
  monthToPairs :: "(jsstring \<times> pair list) list"
  successfulEmailUids :: "int list"
  warnings :: "jsvalue list"

definition Set_add :: "int list \<Rightarrow> int \<Rightarrow> int list" where
  "Set_add s x = (if x \<in> set s then s else s @ [x])"

text \<open>
  The body of the loop from the call of the extractor on (pitchfork_spotify_playlist.mjs
  799-813, playlist sync 306-321), for the pairs the extractor returned.
\<close>

definition collect_pairs :: "(jsstring \<Rightarrow> jsstring) \<Rightarrow> aggregation \<Rightarrow> email \<Rightarrow> pair list \<Rightarrow> aggregation" where
  "collect_pairs toLowerCase st mail rawPairs =
     (let pairs = uniqueBy rawPairs (pair_key toLowerCase) in
      if length pairs = 0 then st\<lparr>warnings := warnings st @ [mail_uid mail]\<rparr>
      else
        let monthStr = formatMonthYYYYMM (mail_date mail);
            existing = (case map_of (monthToPairs st) monthStr of None \<Rightarrow> [] | Some ps \<Rightarrow> ps);
            st = st\<lparr>monthToPairs := AList.update monthStr (existing @ pairs) (monthToPairs st)\<rparr>
        in case mail_uid mail of
             Integer uid \<Rightarrow> st\<lparr>successfulEmailUids := Set_add (successfulEmailUids st) uid\<rparr>
           | _ \<Rightarrow> st)"

text \<open>The check of sender and subject in \<^verbatim>\<open>main\<close> (796), and the one iteration of its
  loop; an exception of the extractor would leave the loop.\<close>

definition main_skips :: "(jsstring \<Rightarrow> jsstring) \<Rightarrow> (jsstring \<Rightarrow> jsstring) \<Rightarrow> email \<Rightarrow> bool" where
  "main_skips toLowerCase base64_utf8 mail =
     (\<not> String_includes (toLowerCase (mail_from mail)) EXPECTED_FROM
      \<or> trim (decodeMimeEncodedWords base64_utf8 (Some (mail_subject mail))) \<noteq> EXPECTED_SUBJECT)"

definition main_step ::
  "(jsstring \<Rightarrow> jsstring) \<Rightarrow> (jsstring \<Rightarrow> jsstring) \<Rightarrow> ('d, 'n) cheerio \<Rightarrow>
   aggregation \<Rightarrow> email \<Rightarrow> exn + aggregation" where
  "main_step toLowerCase base64_utf8 C st mail =
     (if main_skips toLowerCase base64_utf8 mail then Inr st
      else
        case extractAlbumArtistPairs toLowerCase C (Some (mail_body mail)) of
          Inl e \<Rightarrow> Inl e
        | Inr rawPairs \<Rightarrow> Inr (collect_pairs toLowerCase st mail rawPairs))"

text \<open>The check of the sender in \<^verbatim>\<open>syncPlaylistsFromEmails\<close> (302), and the one
  iteration of its loop.\<close>

definition sync_skips :: "(jsstring \<Rightarrow> jsstring) \<Rightarrow> email \<Rightarrow> bool" where
  "sync_skips toLowerCase mail =
     (\<not> String_includes (toLowerCase (mail_from mail)) (js ''newsletter@pitchfork.com''))"

definition sync_step ::
  "(jsstring \<Rightarrow> jsstring) \<Rightarrow> ('d, 'n) cheerio \<Rightarrow> aggregation \<Rightarrow> email \<Rightarrow> exn + aggregation" where
  "sync_step toLowerCase C st mail =
     (if sync_skips toLowerCase mail then Inr st
      else
        case parser_extractAlbumArtistPairs toLowerCase C (Some (mail_body mail)) of
          Inl e \<Rightarrow> Inl e
        | Inr rawPairs \<Rightarrow> Inr (collect_pairs toLowerCase st mail rawPairs))"

text \<open>\<^verbatim>\<open>for (const mail of emails) { ... }\<close>.\<close>

fun for_each_mail :: "(aggregation \<Rightarrow> email \<Rightarrow> exn + aggregation) \<Rightarrow> aggregation \<Rightarrow> email list \<Rightarrow> exn + aggregation" where
  "for_each_mail step st [] = Inr st"
| "for_each_mail step st (mail # rest) =
     (case step st mail of Inl e \<Rightarrow> Inl e | Inr st' \<Rightarrow> for_each_mail step st' rest)"

definition empty_aggregation :: aggregation where
  "empty_aggregation = \<lparr>monthToPairs = [], successfulEmailUids = [], warnings = []\<rparr>"

definition main_collect ::
  "(jsstring \<Rightarrow> jsstring) \<Rightarrow> (jsstring \<Rightarrow> jsstring) \<Rightarrow> ('d, 'n) cheerio \<Rightarrow>
   email list \<Rightarrow> exn + aggregation" where
  "main_collect toLowerCase base64_utf8 C emails =
     for_each_mail (main_step toLowerCase base64_utf8 C) empty_aggregation emails"

definition sync_collect ::
  "(jsstring \<Rightarrow> jsstring) \<Rightarrow> ('d, 'n) cheerio \<Rightarrow> email list \<Rightarrow> exn + aggregation" where
  "sync_collect toLowerCase C emails =
     for_each_mail (sync_step toLowerCase C) empty_aggregation emails"

text \<open>
  The lists handed to the Catalog Resolver, month by month
  (pitchfork_spotify_playlist.mjs 825-827, playlist sync 331-333): each bucket after
  \<^verbatim>\<open>uniqueBy\<close>, the empty ones skipped.
\<close>

definition resolver_buckets :: "(jsstring \<Rightarrow> jsstring) \<Rightarrow> aggregation \<Rightarrow> (jsstring \<times> pair list) list" where
  "resolver_buckets toLowerCase st =
     filter (\<lambda>(monthStr, pairs). length pairs \<noteq> 0)
       (map (\<lambda>(monthStr, rawPairs). (monthStr, uniqueBy rawPairs (pair_key toLowerCase)))
          (monthToPairs st))"

text \<open>The pairs a month has in the \<^verbatim>\<open>Map\<close>, none when the month is not a key.\<close>

definition bucket_of :: "aggregation \<Rightarrow> jsstring \<Rightarrow> pair list" where
  "bucket_of st m = (case map_of (monthToPairs st) m of None \<Rightarrow> [] | Some ps \<Rightarrow> ps)"

text \<open>The shape the bodies of both loops have, for a check \<open>skip\<close> and an extractor \<open>ex\<close>.\<close>

definition step_of :: "(email \<Rightarrow> bool) \<Rightarrow> (email \<Rightarrow> exn + pair list) \<Rightarrow> (jsstring \<Rightarrow> jsstring) \<Rightarrow>
    aggregation \<Rightarrow> email \<Rightarrow> exn + aggregation" where
  "step_of skip ex lc st mail =
     (if skip mail then Inr st
      else case ex mail of Inl e \<Rightarrow> Inl e | Inr raw \<Rightarrow> Inr (collect_pairs lc st mail raw))"

text \<open>A newsletter email of January 2025 with the expected sender and subject, for
  examples.\<close>

definition sample_mail :: "jsvalue \<Rightarrow> jsstring \<Rightarrow> email" where
  "sample_mail uid body =
     \<lparr>mail_uid = uid, mail_date = Date 2025 0,
      mail_from = js ''Pitchfork <newsletter@pitchfork.com>'',
      mail_subject = js ''10 Best Reviewed Albums of the Week'',
      mail_body = body\<rparr>"

section \<open>Playlist Assembler: reordering\<close>

text \<open>
  An item of a page of the playlist as the loop of \<^verbatim>\<open>reorderPlaylistByDateAdded\<close> reads
  it: \<^verbatim>\<open>item.track.uri\<close> (\<open>None\<close> when the item has no track or the track no URI) and
  \<^verbatim>\<open>new Date(item.added_at).getTime()\<close>, the time stamp in milliseconds.
\<close>

record playlist_item =
  item_uri :: "jsstring option"
  item_added_at :: int

record track =
  uri :: jsstring
  added_at :: int

text \<open>The body of the request to the reordering endpoint.\<close>

record reorder_request =
  range_start :: nat
  range_length :: nat
  insert_before :: nat

text \<open>
  \<^verbatim>\<open>reorderPlaylistByDateAdded\<close> (pitchfork_spotify_playlist.mjs 717-754, playlist service
  139-173), for the pages the \<^verbatim>\<open>GET\<close> requests return until \<^verbatim>\<open>next\<close> is null: the array
  \<^verbatim>\<open>trackUris\<close> the function computes and the bodies of the \<^verbatim>\<open>PUT\<close> requests it sends.
  \<^verbatim>\<open>Array.prototype.sort\<close> is stable, as \<open>sort_key\<close> is.
\<close>

record reorder_run =
  trackUris :: "jsstring list"
  put_requests :: "reorder_request list"

definition reorderPlaylistByDateAdded :: "playlist_item list list \<Rightarrow> reorder_run" where
  "reorderPlaylistByDateAdded pages =
     (let tracks = concat (map (List.map_filter (\<lambda>item.
                      case item_uri item of
                        None \<Rightarrow> None
                      | Some u \<Rightarrow> Some \<lparr>uri = u, added_at = item_added_at item\<rparr>)) pages)
      in
      if length tracks = 0 then \<lparr>trackUris = [], put_requests = []\<rparr>
      else
        let tracks = sort_key (\<lambda>t. - added_at t) tracks;
            trackUris = map uri tracks;
            rangeLength = length trackUris
        in \<lparr>trackUris = trackUris,
            put_requests = [\<lparr>range_start = 0, range_length = rangeLength, insert_before = rangeLength\<rparr>]\<rparr>)"

text \<open>
  What the remote endpoint does with such a body, as the Spotify Web API documents it:
  the \<^verbatim>\<open>range_length\<close> items from position \<^verbatim>\<open>range_start\<close> are taken out and put back before
  the item that was at position \<^verbatim>\<open>insert_before\<close>.
\<close>

definition apply_reorder :: "reorder_request \<Rightarrow> 'a list \<Rightarrow> 'a list" where
  "apply_reorder r xs =
     (let first = take (range_start r) xs;
          moved = take (range_length r) (drop (range_start r) xs);
          last = drop (range_start r + range_length r) xs
      in
      if insert_before r \<le> range_start r
      then take (insert_before r) first @ moved @ drop (insert_before r) first @ last
      else first @ take (insert_before r - (range_start r + range_length r)) last
             @ moved @ drop (insert_before r - (range_start r + range_length r)) last)"


section \<open>Properties of the gate\<close>

lemma addPair_cases:
  "addPair lc pairs a b =
     (if 2 \<le> length (trim a) \<and> 2 \<le> length (trim b)
         \<and> pair_key lc \<lparr>artist = trim a, album = trim b\<rparr> \<notin> pair_key lc ` set pairs
      then pairs @ [\<lparr>artist = trim a, album = trim b\<rparr>]
      else pairs)"
proof -
  have k: "list_ex (\<lambda>p. lc (artist p) @ js ''::'' @ lc (album p) = lc (trim a) @ js ''::'' @ lc (trim b)) pairs
        \<longleftrightarrow> pair_key lc \<lparr>artist = trim a, album = trim b\<rparr> \<in> pair_key lc ` set pairs"
    by (auto simp: list_ex_iff pair_key_def image_iff eq_commute)
  show ?thesis
    unfolding addPair_def Let_def k
    by (cases "2 \<le> length (trim a)"; cases "2 \<le> length (trim b)") auto
qed

lemma addPair_length: "length (addPair lc pairs a b) \<le> Suc (length pairs)"
  by (simp add: addPair_cases)

lemma addPair_prefix: "\<exists>new. addPair lc pairs a b = pairs @ new \<and> length new \<le> 1"
  by (simp add: addPair_cases)

lemma addPair_distinct:
  "distinct (map (pair_key lc) pairs) \<Longrightarrow> distinct (map (pair_key lc) (addPair lc pairs a b))"
  by (simp add: addPair_cases)

lemma addPair_keys_mono:
  "k \<in> pair_key lc ` set pairs \<Longrightarrow> k \<in> pair_key lc ` set (addPair lc pairs a b)"
  by (simp add: addPair_cases)

lemma addPair_key_present:
  "2 \<le> length (trim a) \<Longrightarrow> 2 \<le> length (trim b) \<Longrightarrow>
   pair_key lc \<lparr>artist = trim a, album = trim b\<rparr> \<in> pair_key lc ` set (addPair lc pairs a b)"
  by (simp add: addPair_cases)

lemma addPairs_distinct:
  "distinct (map (pair_key lc) pairs) \<Longrightarrow> distinct (map (pair_key lc) (addPairs lc pairs subs))"
  unfolding addPairs_def
  by (induction subs arbitrary: pairs) (auto simp: addPair_distinct)

lemma addPairs_keys_mono:
  "k \<in> pair_key lc ` set pairs \<Longrightarrow> k \<in> pair_key lc ` set (addPairs lc pairs subs)"
  unfolding addPairs_def
  by (induction subs arbitrary: pairs) (auto simp: addPair_keys_mono)

lemma addPairs_key_present:
  "(a, b) \<in> set subs \<Longrightarrow> 2 \<le> length (trim a) \<Longrightarrow> 2 \<le> length (trim b) \<Longrightarrow>
   pair_key lc \<lparr>artist = trim a, album = trim b\<rparr> \<in> pair_key lc ` set (addPairs lc pairs subs)"
proof (induction subs arbitrary: pairs)
  case Nil
  then show ?case by simp
next
  case (Cons s subs)
  obtain x y where s: "s = (x, y)" by (cases s)
  have step: "addPairs lc pairs (s # subs) = addPairs lc (addPair lc pairs x y) subs"
    by (simp add: addPairs_def s)
  show ?case
  proof (cases "(a, b) = s")
    case True
    then have "pair_key lc \<lparr>artist = trim a, album = trim b\<rparr> \<in> pair_key lc ` set (addPair lc pairs x y)"
      using Cons.prems s addPair_key_present by auto
    then show ?thesis
      unfolding step by (rule addPairs_keys_mono)
  next
    case False
    then have "(a, b) \<in> set subs" using Cons.prems by auto
    then show ?thesis
      unfolding step using Cons.IH Cons.prems by blast
  qed
qed

lemma distinct_key_count:
  "distinct (map f xs) \<Longrightarrow> k \<in> f ` set xs \<Longrightarrow> length (filter (\<lambda>x. f x = k) xs) = 1"
proof (induction xs)
  case Nil
  then show ?case by simp
next
  case (Cons x xs)
  show ?case
  proof (cases "f x = k")
    case True
    then have "k \<notin> f ` set xs" using Cons.prems by auto
    then have "filter (\<lambda>x. f x = k) xs = []"
      by (auto simp: filter_empty_conv)
    then show ?thesis using True by simp
  next
    case False
    then show ?thesis using Cons by auto
  qed
qed

text \<open>
  C2. The gate appends the trimmed pair exactly when both trimmed strings have length at
  least 2 and the case-insensitive key \<open>artist::album\<close> is not yet in the list; otherwise
  the list is returned unchanged. Hence, whatever is submitted to a list whose keys are
  distinct (the empty list the extractor starts from, in particular), every valid
  submission's key ends up on exactly one entry, however many case-varying duplicates of
  it were submitted.
\<close>

theorem addPair_gate:
  "addPair toLowerCase pairs artist0 album0 =
     (if 2 \<le> length (trim artist0) \<and> 2 \<le> length (trim album0)
         \<and> pair_key toLowerCase \<lparr>artist = trim artist0, album = trim album0\<rparr>
             \<notin> pair_key toLowerCase ` set pairs
      then pairs @ [\<lparr>artist = trim artist0, album = trim album0\<rparr>]
      else pairs)
   \<and> (distinct (map (pair_key toLowerCase) pairs) \<and> (a, b) \<in> set subs
        \<and> 2 \<le> length (trim a) \<and> 2 \<le> length (trim b) \<longrightarrow>
      length (filter (\<lambda>p. pair_key toLowerCase p
                 = pair_key toLowerCase \<lparr>artist = trim a, album = trim b\<rparr>)
               (addPairs toLowerCase pairs subs)) = 1)"
proof (intro conjI impI)
  show "addPair toLowerCase pairs artist0 album0 =
     (if 2 \<le> length (trim artist0) \<and> 2 \<le> length (trim album0)
         \<and> pair_key toLowerCase \<lparr>artist = trim artist0, album = trim album0\<rparr>
             \<notin> pair_key toLowerCase ` set pairs
      then pairs @ [\<lparr>artist = trim artist0, album = trim album0\<rparr>]
      else pairs)"
    by (rule addPair_cases)
next
  assume h: "distinct (map (pair_key toLowerCase) pairs) \<and> (a, b) \<in> set subs
        \<and> 2 \<le> length (trim a) \<and> 2 \<le> length (trim b)"
  have d: "distinct (map (pair_key toLowerCase) (addPairs toLowerCase pairs subs))"
    using h by (simp add: addPairs_distinct)
  have m: "pair_key toLowerCase \<lparr>artist = trim a, album = trim b\<rparr>
            \<in> pair_key toLowerCase ` set (addPairs toLowerCase pairs subs)"
    using h by (simp add: addPairs_key_present)
  show "length (filter (\<lambda>p. pair_key toLowerCase p
                 = pair_key toLowerCase \<lparr>artist = trim a, album = trim b\<rparr>)
               (addPairs toLowerCase pairs subs)) = 1"
    using d m by (rule distinct_key_count)
qed

theorem addPair_gate_witness:
  "addPair ascii_toLowerCase [] (js ''Radiohead'') (js '' OK Computer '')
     = [\<lparr>artist = js ''Radiohead'', album = js ''OK Computer''\<rparr>]
   \<and> length (filter (\<lambda>p. pair_key ascii_toLowerCase p
                 = pair_key ascii_toLowerCase \<lparr>artist = js ''Radiohead'', album = js ''OK Computer''\<rparr>)
               (addPairs ascii_toLowerCase []
                  [(js ''Radiohead'', js ''OK Computer''), (js ''RADIOHEAD'', js '' ok computer'')])) = 1"
  using addPair_gate [of ascii_toLowerCase "[]" "js ''Radiohead''" "js '' OK Computer ''"
      "js ''Radiohead''" "js ''OK Computer''"
      "[(js ''Radiohead'', js ''OK Computer''), (js ''RADIOHEAD'', js '' ok computer'')]"]
  by (simp add: trim_def js_def is_space_def is_line_terminator_def)

section \<open>Properties of the Text Normalizer\<close>

lemma gsub_drop: "gsub m k s = gsub m 0 (drop k s)"
  by (induction m k s rule: gsub.induct) auto

lemma canon_lt: "canon c = 0x3C \<Longrightarrow> c = 0x3C"
proof (cases "0x61 \<le> c \<and> c \<le> 0x7A")
  case True
  assume "canon c = 0x3C"
  moreover from True have "canon c = c - 0x20" unfolding canon_def by (rule if_P)
  ultimately have "c - 0x20 = 0x3C" by simp
  then have "c = 0x3C + 0x20" by (metis diff_add_cancel)
  then have "c = 0x5C" by simp
  with True show ?thesis by simp
next
  case False
  then have "canon c = c" unfolding canon_def by (rule if_not_P)
  moreover assume "canon c = 0x3C"
  ultimately show ?thesis by simp
qed

lemma drop_takeWhile_length: "drop (length (takeWhile P s)) s = dropWhile P s"
  by (induction s) auto

lemma replace_ws_space:
  "is_space c \<Longrightarrow> replace re_ws r (c # s) = r @ replace re_ws r (dropWhile is_space s)"
proof -
  assume c: "is_space c"
  have "gsub (\<lambda>t. map_option (\<lambda>n. (n, r)) (re_ws t)) (length (takeWhile is_space s)) s
      = gsub (\<lambda>t. map_option (\<lambda>n. (n, r)) (re_ws t)) 0 (dropWhile is_space s)"
    by (subst gsub_drop) (simp add: drop_takeWhile_length)
  with c show ?thesis
    by (simp add: replace_def re_ws_def)
qed

lemma replace_ws_nonspace:
  "\<not> is_space c \<Longrightarrow> replace re_ws r (c # s) = c # replace re_ws r s"
  by (simp add: replace_def re_ws_def)

lemma replace_ws_Nil: "replace re_ws r [] = []"
  by (simp add: replace_def)

lemma hd_replace_ws_nonspace:
  "s \<noteq> [] \<Longrightarrow> \<not> is_space (hd s) \<Longrightarrow> replace re_ws r s \<noteq> [] \<and> \<not> is_space (hd (replace re_ws r s))"
  by (cases s) (auto simp: replace_ws_nonspace)

lemma collapsed_Cons_space:
  "collapsed s \<Longrightarrow> s = [] \<or> \<not> is_space (hd s) \<Longrightarrow> collapsed (0x20 # s)"
  by (cases s) auto

lemma collapsed_Cons_nonspace:
  "collapsed s \<Longrightarrow> \<not> is_space c \<Longrightarrow> collapsed (c # s)"
  by (cases s) auto

lemma collapsed_replace_ws: "collapsed (replace re_ws [0x20] s)"
proof (induction s rule: length_induct)
  case (1 s)
  show ?case
  proof (cases s)
    case Nil
    then show ?thesis by (simp add: replace_ws_Nil)
  next
    case (Cons c t)
    show ?thesis
    proof (cases "is_space c")
      case True
      let ?d = "dropWhile is_space t"
      have len: "length ?d < length s"
        using Cons length_dropWhile_le [of is_space t] by simp
      have ih: "collapsed (replace re_ws [0x20] ?d)"
        using 1 len by blast
      have hd: "replace re_ws [0x20] ?d = [] \<or> \<not> is_space (hd (replace re_ws [0x20] ?d))"
      proof (cases "?d = []")
        assume e: "?d = []"
        show ?thesis unfolding e by (simp add: replace_ws_Nil)
      next
        assume ne: "?d \<noteq> []"
        then have "\<not> is_space (hd ?d)" by (rule hd_dropWhile)
        with ne show ?thesis using hd_replace_ws_nonspace by blast
      qed
      show ?thesis
        unfolding Cons replace_ws_space [OF True]
        using collapsed_Cons_space [OF ih hd] by simp
    next
      case False
      have "collapsed (replace re_ws [0x20] t)" using 1 Cons by simp
      then show ?thesis
        unfolding Cons replace_ws_nonspace [OF False]
        using False by (rule collapsed_Cons_nonspace)
    qed
  qed
qed

lemma collapsed_tl: "collapsed (c # s) \<Longrightarrow> collapsed s"
  by (cases s) auto

lemma collapsed_dropWhile: "collapsed s \<Longrightarrow> collapsed (dropWhile P s)"
  by (induction s) (auto dest: collapsed_tl)

lemma collapsed_append_left: "collapsed (xs @ ys) \<Longrightarrow> collapsed xs"
proof (induction xs rule: collapsed.induct)
  case 1
  then show ?case by simp
next
  case (2 c)
  then show ?case by (cases ys) auto
next
  case (3 c d s)
  then show ?case by auto
qed

lemma trim_prefix_of_dropWhile:
  "\<exists>ys. dropWhile is_space s = trim s @ ys"
proof -
  let ?w = "dropWhile is_space s"
  have "rev (takeWhile is_space (rev ?w) @ dropWhile is_space (rev ?w))
          = rev (dropWhile is_space (rev ?w)) @ rev (takeWhile is_space (rev ?w))"
    by (rule rev_append)
  then have "rev (rev ?w) = rev (dropWhile is_space (rev ?w)) @ rev (takeWhile is_space (rev ?w))"
    by (simp only: takeWhile_dropWhile_id)
  then have "?w = trim s @ rev (takeWhile is_space (rev ?w))"
    by (simp only: rev_rev_ident trim_def)
  then show ?thesis by blast
qed

lemma collapsed_trim: "collapsed s \<Longrightarrow> collapsed (trim s)"
proof -
  assume "collapsed s"
  then have c: "collapsed (dropWhile is_space s)" by (rule collapsed_dropWhile)
  obtain ys where "dropWhile is_space s = trim s @ ys"
    using trim_prefix_of_dropWhile by blast
  with c show ?thesis using collapsed_append_left by metis
qed

lemma collapsed_space: "collapsed s \<Longrightarrow> c \<in> set s \<Longrightarrow> is_space c \<Longrightarrow> c = 0x20"
  by (induction s rule: collapsed.induct) auto

lemma replace_ws_collapsed: "collapsed s \<Longrightarrow> replace re_ws [0x20] s = s"
proof (induction s rule: collapsed.induct)
  case 1
  then show ?case by (simp add: replace_ws_Nil)
next
  case (2 c)
  then show ?case
    by (cases "is_space c") (auto simp: replace_ws_space replace_ws_nonspace replace_ws_Nil)
next
  case (3 c d s)
  show ?case
  proof (cases "is_space c")
    case True
    with 3 have "c = 0x20" and "\<not> is_space d" and "collapsed (d # s)" by auto
    then show ?thesis
      using 3 True by (simp add: replace_ws_space)
  next
    case False
    with 3 show ?thesis by (simp add: replace_ws_nonspace)
  qed
qed

lemma trim_trim: "trim (trim s) = trim s"
proof -
  let ?r = "dropWhile is_space (rev (dropWhile is_space s))"
  have a: "dropWhile is_space (rev ?r) = rev ?r"
  proof (cases "rev ?r")
    case Nil
    show ?thesis unfolding Nil by simp
  next
    case (Cons c t)
    obtain ys where ys: "dropWhile is_space s = trim s @ ys"
      using trim_prefix_of_dropWhile by blast
    have "trim s = c # t" using Cons by (simp add: trim_def)
    then have "dropWhile is_space s = c # t @ ys" using ys by simp
    then have "\<not> is_space c"
      by (metis hd_dropWhile list.sel(1) list.distinct(1))
    then show ?thesis using Cons by simp
  qed
  have b: "dropWhile is_space ?r = ?r"
    by simp
  show ?thesis
    unfolding trim_def a rev_rev_ident b ..
qed

lemma js_space: "js '' '' = [0x20]"
  by (simp add: js_def)

lemma collapsed_stripHtml: "collapsed (stripHtml x)"
proof (cases x)
  case None
  then show ?thesis by (simp add: stripHtml_def)
next
  case (Some s)
  show ?thesis
  proof (cases "s = []")
    case True
    with Some show ?thesis by (simp add: stripHtml_def)
  next
    case False
    with Some show ?thesis
      unfolding stripHtml_def Let_def js_space
      by (simp only: option.case if_False collapsed_trim collapsed_replace_ws)
  qed
qed

lemma trim_stripHtml: "trim (stripHtml x) = stripHtml x"
proof (cases x)
  case None
  then show ?thesis by (simp add: stripHtml_def trim_def)
next
  case (Some s)
  show ?thesis
  proof (cases "s = []")
    case True
    with Some show ?thesis by (simp add: stripHtml_def trim_def)
  next
    case False
    with Some show ?thesis
      unfolding stripHtml_def Let_def
      by (simp only: option.case if_False trim_trim)
  qed
qed

lemma text_stripHtml_eq: "text_stripHtml x = stripHtml x"
  by (cases x) (simp_all add: text_stripHtml_def stripHtml_def decodeHtmlEntities_def entities_def Let_def)

text \<open>When is a second call of \<^verbatim>\<open>stripHtml\<close> the identity? Every replacement before the white-space
  pass puts a shorter text in the place of a match, so a pass that finds a match shortens the text
  and no later pass makes it longer.\<close>

lemma replace_unmatched: "\<not> matches_somewhere re s \<Longrightarrow> replace re r s = s"
  unfolding replace_def by (induction s) auto

lemma canon_gt: "canon c = 0x3E \<Longrightarrow> c = 0x3E"
proof (cases "0x61 \<le> c \<and> c \<le> 0x7A")
  case True
  assume "canon c = 0x3E"
  moreover from True have "canon c = c - 0x20" unfolding canon_def by (rule if_P)
  ultimately have "c - 0x20 = 0x3E" by simp
  then have "c = 0x3E + 0x20" by (metis diff_add_cancel)
  then have "c = 0x5E" by simp
  with True show ?thesis by simp
next
  case False
  then have "canon c = c" unfolding canon_def by (rule if_not_P)
  moreover assume "canon c = 0x3E"
  ultimately show ?thesis by simp
qed

lemma find_ci_Some:
  "find_ci lit s = Some k \<Longrightarrow> starts_with_ci lit (drop k s) \<and> k \<le> length s"
proof (induction s arbitrary: k)
  case Nil
  then show ?case by (auto simp: starts_with_ci_def split: if_splits)
next
  case (Cons c s)
  show ?case
  proof (cases "starts_with_ci lit (c # s)")
    case True
    then show ?thesis using Cons.prems by simp
  next
    case False
    then obtain j where "find_ci lit s = Some j" and "k = Suc j"
      using Cons.prems by auto
    then show ?thesis using Cons.IH by simp
  qed
qed

lemma starts_with_ci_length: "starts_with_ci lit s \<Longrightarrow> length lit \<le> length s"
  by (simp add: starts_with_ci_def)

lemma starts_with_ci_last:
  "starts_with_ci (lit @ [x]) s \<Longrightarrow> canon (s ! length lit) = canon x"
proof -
  assume a: "starts_with_ci (lit @ [x]) s"
  then have l: "length lit < length s" by (simp add: starts_with_ci_def)
  from a have "map canon (take (Suc (length lit)) s) = map canon (lit @ [x])"
    by (simp add: starts_with_ci_def)
  then have "map canon (take (Suc (length lit)) s) ! length lit = map canon (lit @ [x]) ! length lit"
    by simp
  then show ?thesis using l by (simp add: nth_append)
qed

lemma re_block_bound:
  "re_block opn cls t = Some n \<Longrightarrow> n \<le> length t \<and> length opn + length cls \<le> n"
proof -
  assume a: "re_block opn cls t = Some n"
  then have o: "starts_with_ci opn t"
    and "\<exists>k. find_ci cls (drop (length opn) t) = Some k \<and> n = length opn + k + length cls"
    by (auto simp: re_block_def split: if_splits)
  then obtain k where k: "find_ci cls (drop (length opn) t) = Some k"
    and n: "n = length opn + k + length cls" by blast
  have "length cls \<le> length (drop k (drop (length opn) t))"
    using find_ci_Some [OF k] starts_with_ci_length by blast
  moreover have "k \<le> length (drop (length opn) t)" using find_ci_Some [OF k] by simp
  ultimately show ?thesis using n starts_with_ci_length [OF o] by simp
qed

lemma re_block_gt:
  assumes "re_block opn (cl @ [0x3E]) t = Some n"
  shows "0x3E \<in> set (drop (length opn) t)"
proof -
  from assms obtain k where k: "find_ci (cl @ [0x3E]) (drop (length opn) t) = Some k"
    by (auto simp: re_block_def split: if_splits)
  let ?u = "drop k (drop (length opn) t)"
  have s: "starts_with_ci (cl @ [0x3E]) ?u" using find_ci_Some [OF k] by simp
  then have "canon (?u ! length cl) = canon 0x3E" by (rule starts_with_ci_last)
  moreover have "canon (0x3E::jschar) = 0x3E" by (simp add: canon_def)
  ultimately have "?u ! length cl = 0x3E" using canon_gt by simp
  moreover have "length cl < length ?u" using starts_with_ci_length [OF s] by simp
  ultimately have "0x3E \<in> set ?u" by (metis nth_mem)
  then show ?thesis by (meson in_set_dropD)
qed

lemma takeWhile_length_mem:
  fixes a :: jschar
  shows "length (takeWhile (\<lambda>x. x \<noteq> a) t) < length t \<longleftrightarrow> a \<in> set t"
  by (induction t) auto

lemma re_tag_iff:
  "re_tag (c # t) \<noteq> None \<longleftrightarrow> c = 0x3C \<and> t \<noteq> [] \<and> hd t \<noteq> 0x3E \<and> 0x3E \<in> set t"
proof (cases t)
  case Nil
  then show ?thesis by (simp add: re_tag_def)
next
  case (Cons d u)
  then show ?thesis
    unfolding re_tag_def using takeWhile_length_mem [where t = t and a = "0x3E"] by (simp add: Let_def)
qed


lemma re_block_tag:
  assumes "re_block (0x3C # o1 # lit) (cl @ [0x3E]) s \<noteq> None" and "canon o1 \<noteq> 0x3E"
  shows "re_tag s \<noteq> None"
proof -
  from assms(1) obtain n where n: "re_block (0x3C # o1 # lit) (cl @ [0x3E]) s = Some n" by blast
  then have o: "starts_with_ci (0x3C # o1 # lit) s" by (auto simp: re_block_def split: if_splits)
  then obtain c d u where s: "s = c # d # u"
    by (cases s; cases "tl s") (auto simp: starts_with_ci_def)
  from o s have "canon c = 0x3C" and "canon d = canon o1"
    by (auto simp: starts_with_ci_def canon_def)
  moreover have "canon (0x3E::jschar) = 0x3E" by (simp add: canon_def)
  ultimately have c: "c = 0x3C" and d: "d \<noteq> 0x3E" using canon_lt assms(2) by auto
  have "0x3E \<in> set (drop (length (0x3C # o1 # lit)) s)" using re_block_gt [OF n] .
  then have "0x3E \<in> set (d # u)" using s by (simp add: in_set_dropD)
  then show ?thesis using c d s re_tag_iff [of c "d # u"] by simp
qed

lemma matches_block_tag:
  assumes "matches_somewhere (re_block (0x3C # o1 # lit) (cl @ [0x3E])) s" and "canon o1 \<noteq> 0x3E"
  shows "matches_somewhere re_tag s"
  using assms(1)
proof (induction s)
  case Nil
  then show ?case by simp
next
  case (Cons c s)
  show ?case
  proof (cases "re_block (0x3C # o1 # lit) (cl @ [0x3E]) (c # s) = None")
    case True
    then show ?thesis using Cons by simp
  next
    case False
    then have "re_tag (c # s) \<noteq> None" using assms(2) by (rule re_block_tag)
    then show ?thesis by simp
  qed
qed

lemma gsub_length:
  assumes "\<And>t n r. m t = Some (n, r) \<Longrightarrow> length r \<le> n \<and> n \<le> length t"
  shows "length (gsub m k s) \<le> length s - k"
proof (induction s arbitrary: k)
  case Nil
  then show ?case by simp
next
  case (Cons c s)
  show ?case
  proof (cases k)
    case (Suc j)
    then show ?thesis using Cons [of j] by simp
  next
    case 0
    show ?thesis
    proof (cases "m (c # s)")
      case None
      then show ?thesis using Cons [of 0] 0 by simp
    next
      case (Some a)
      obtain n r where a: "a = (n, r)" by (cases a)
      have "m (c # s) = Some (n, r)" using Some a by simp
      from assms [OF this] have b: "length r \<le> n \<and> n \<le> Suc (length s)" by simp
      have "length (gsub m (n - 1) s) \<le> length s - (n - 1)" by (rule Cons)
      then have "length r + length (gsub m (n - 1) s) \<le> Suc (length s)" using b by arith
      then show ?thesis using Some a 0 by simp
    qed
  qed
qed

lemma replace_length:
  assumes "\<And>t n. re t = Some n \<Longrightarrow> length r \<le> n \<and> n \<le> length t"
  shows "length (replace re r s) \<le> length s"
proof -
  have "length (gsub (\<lambda>t. map_option (\<lambda>n. (n, r)) (re t)) 0 s) \<le> length s - 0"
    by (rule gsub_length) (use assms in auto)
  then show ?thesis by (simp add: replace_def)
qed

lemma replace_shrinks:
  assumes le: "\<And>t n. re t = Some n \<Longrightarrow> length r < n \<and> n \<le> length t"
    and "matches_somewhere re s"
  shows "length (replace re r s) < length s"
  using assms(2)
proof (induction s)
  case Nil
  then show ?case by simp
next
  case (Cons c s)
  let ?m = "\<lambda>t. map_option (\<lambda>n. (n, r)) (re t)"
  have g: "\<And>k u. length (gsub ?m k u) \<le> length u - k"
    by (rule gsub_length) (use le in fastforce)
  show ?case
  proof (cases "re (c # s)")
    case None
    then have "matches_somewhere re s" using Cons.prems by simp
    then have "length (replace re r s) < length s" by (rule Cons.IH)
    then show ?thesis using None by (simp add: replace_def)
  next
    case (Some n)
    from le [OF Some] have b: "length r < n \<and> n \<le> Suc (length s)" by simp
    have "length (gsub ?m (n - 1) s) \<le> length s - (n - 1)" by (rule g)
    then have "length r + length (gsub ?m (n - 1) s) < Suc (length s)" using b by arith
    then show ?thesis using Some by (simp add: replace_def)
  qed
qed

lemma re_tag_bound: "re_tag t = Some n \<Longrightarrow> 1 < n \<and> n \<le> length t"
  by (cases t) (auto simp: re_tag_def Let_def split: if_splits)

lemma re_lit_bound: "re_lit lit t = Some n \<Longrightarrow> n = length lit \<and> n \<le> length t"
  by (auto simp: re_lit_def split: if_splits)

lemma re_ws_bound: "re_ws t = Some n \<Longrightarrow> 0 < n \<and> n \<le> length t"
  by (auto simp: re_ws_def Let_def length_takeWhile_le split: if_splits)

lemma trim_length: "length (trim s) \<le> length s"
  unfolding trim_def
  by (metis length_dropWhile_le length_rev le_trans)


lemma stripHtml_as_passes:
  "s \<noteq> [] \<Longrightarrow>
   stripHtml (Some s) = trim (replace re_ws (js '' '') (foldl (\<lambda>t (re, r). replace re r t) s stripHtml_passes))"
  by (simp add: stripHtml_def stripHtml_passes_def entities_def Let_def)

lemma passes_length:
  assumes "\<forall>(re, r)\<in>set ps. \<forall>t n. re t = Some n \<longrightarrow> length r \<le> n \<and> n \<le> length t"
  shows "length (foldl (\<lambda>t (re, r). replace re r t) s ps) \<le> length s"
  using assms
proof (induction ps arbitrary: s)
  case Nil
  then show ?case by simp
next
  case (Cons p ps)
  obtain re r where p: "p = (re, r)" by (cases p)
  have "length (replace re r s) \<le> length s"
    by (rule replace_length) (use Cons.prems p in auto)
  moreover have "length (foldl (\<lambda>t (re, r). replace re r t) (replace re r s) ps) \<le> length (replace re r s)"
    by (rule Cons.IH) (use Cons.prems in auto)
  ultimately show ?case using p by simp
qed

lemma passes_dichotomy:
  assumes "\<forall>(re, r)\<in>set ps. \<forall>t n. re t = Some n \<longrightarrow> length r < n \<and> n \<le> length t"
  shows "if \<exists>(re, r)\<in>set ps. matches_somewhere re s
         then length (foldl (\<lambda>t (re, r). replace re r t) s ps) < length s
         else foldl (\<lambda>t (re, r). replace re r t) s ps = s"
  using assms
proof (induction ps arbitrary: s)
  case Nil
  then show ?case by simp
next
  case (Cons p ps)
  obtain re r where p: "p = (re, r)" by (cases p)
  have tl: "\<forall>(re, r)\<in>set ps. \<forall>t n. re t = Some n \<longrightarrow> length r < n \<and> n \<le> length t"
    using Cons.prems by auto
  have hd: "\<And>t n. re t = Some n \<Longrightarrow> length r < n \<and> n \<le> length t"
    using Cons.prems p by auto
  show ?case
  proof (cases "matches_somewhere re s")
    case True
    have "length (replace re r s) < length s" using hd True by (rule replace_shrinks)
    moreover have "length (foldl (\<lambda>t (re, r). replace re r t) (replace re r s) ps) \<le> length (replace re r s)"
      by (rule passes_length) (use tl in fastforce)
    ultimately show ?thesis using p True by auto
  next
    case False
    then have "replace re r s = s" by (rule replace_unmatched)
    then show ?thesis using Cons.IH [OF tl, of s] p False by simp
  qed
qed

lemma stripHtml_passes_shrink:
  "\<forall>(re, r)\<in>set stripHtml_passes. \<forall>t n. re t = Some n \<longrightarrow> length r < n \<and> n \<le> length t"
proof -
  have b: "0 < n \<and> n \<le> length t" if "re_block opn cls t = Some n" and "opn \<noteq> []" for opn cls t n
    using re_block_bound [OF that(1)] that(2) by (cases opn) auto
  have l: "n = length lit \<and> n \<le> length t" if "re_lit lit t = Some n" for lit t n
    using that by (rule re_lit_bound)
  have t: "1 < n \<and> n \<le> length t" if "re_tag t = Some n" for t n
    using that by (rule re_tag_bound)
  show ?thesis
    unfolding stripHtml_passes_def entities_def
    by (auto dest!: b l t simp: js_def)
qed

lemma markup_left_passes:
  "markup_left s \<longleftrightarrow> (\<exists>(re, r)\<in>set stripHtml_passes. matches_somewhere re s)"
proof -
  have 1: "matches_somewhere (re_block (js ''<style'') (js ''</style>'')) s \<Longrightarrow> matches_somewhere re_tag s"
    using matches_block_tag [of "of_nat (of_char CHR ''s'')" "js ''tyle''" "js ''</style''" s]
    by (simp add: js_def canon_def)
  have 2: "matches_somewhere (re_block (js ''<script'') (js ''</script>'')) s \<Longrightarrow> matches_somewhere re_tag s"
    using matches_block_tag [of "of_nat (of_char CHR ''s'')" "js ''cript''" "js ''</script''" s]
    by (simp add: js_def canon_def)
  show ?thesis
    unfolding markup_left_def stripHtml_passes_def entities_def
    using 1 2 by auto
qed

lemma stripHtml_again_iff:
  "stripHtml (Some (stripHtml x)) = stripHtml x \<longleftrightarrow> \<not> markup_left (stripHtml x)"
proof (cases "stripHtml x = []")
  case True
  then show ?thesis by (simp add: stripHtml_def markup_left_def entities_def)
next
  case False
  let ?y = "stripHtml x"
  let ?p = "foldl (\<lambda>t (re, r). replace re r t) ?y stripHtml_passes"
  have s: "stripHtml (Some ?y) = trim (replace re_ws (js '' '') ?p)"
    using False by (rule stripHtml_as_passes)
  have d: "if markup_left ?y then length ?p < length ?y else ?p = ?y"
    using passes_dichotomy [OF stripHtml_passes_shrink, of ?y] markup_left_passes [of ?y] by simp
  show ?thesis
  proof (cases "markup_left ?y")
    case True
    then have "length ?p < length ?y" using d by simp
    moreover have "length (replace re_ws (js '' '') ?p) \<le> length ?p"
      by (rule replace_length) (use re_ws_bound in \<open>fastforce simp: js_def\<close>)
    moreover have "length (trim (replace re_ws (js '' '') ?p)) \<le> length (replace re_ws (js '' '') ?p)"
      by (rule trim_length)
    ultimately have "length (stripHtml (Some ?y)) < length ?y" using s by simp
    then show ?thesis using True by auto
  next
    case False
    then have "?p = ?y" using d by simp
    then have "stripHtml (Some ?y) = trim (replace re_ws [0x20] ?y)" using s by (simp add: js_space)
    then show ?thesis
      using False replace_ws_collapsed [OF collapsed_stripHtml [of x]] trim_stripHtml [of x] by simp
  qed
qed

text \<open>
  C5 (as amended). \<^verbatim>\<open>stripHtml\<close> is not idempotent in general: decoding an entity can
  produce a new entity or a new tag. A second call leaves the stripped text \<^verbatim>\<open>stripHtml(x)\<close> as it
  is exactly when no markup is left in it: no match of the tag expression \<^verbatim>\<open>/<[^>]+>/\<close> (which
  covers the style and script blocks) and none of the six entities \<^verbatim>\<open>&nbsp; &amp; &quot; &#39;
  &lt; &gt;\<close>. A lone \<^verbatim>\<open>&\<close> or \<^verbatim>\<open><\<close> in the stripped text does no harm. This holds for the function
  of the monolithic script and for the one of src/utils/text.mjs.
\<close>

theorem stripHtml_idempotent_plain:
  "(stripHtml (Some (stripHtml x)) = stripHtml x \<longleftrightarrow> \<not> markup_left (stripHtml x))
   \<and> (text_stripHtml (Some (text_stripHtml x)) = text_stripHtml x
        \<longleftrightarrow> \<not> markup_left (text_stripHtml x))"
  using stripHtml_again_iff [of x] by (simp add: text_stripHtml_eq)

text \<open>The definitions that evaluate the Text Normalizer on a concrete string.\<close>

lemmas eval_text = stripHtml_def text_stripHtml_def decodeHtmlEntities_def entities_def js_def replace_def
  re_block_def starts_with_ci_def re_tag_def re_lit_def re_ws_def trim_def is_space_def
  is_line_terminator_def canon_def

text \<open>
  C5 as stated fails: \<^verbatim>\<open>stripHtml("&amp;amp;")\<close> is \<^verbatim>\<open>"&amp;"\<close>, and stripping that again
  gives \<^verbatim>\<open>"&"\<close>.
\<close>

theorem stripHtml_not_idempotent:
  "stripHtml (Some (stripHtml (Some (js ''&amp;amp;'')))) \<noteq> stripHtml (Some (js ''&amp;amp;''))
   \<and> text_stripHtml (Some (text_stripHtml (Some (js ''&amp;amp;''))))
       \<noteq> text_stripHtml (Some (js ''&amp;amp;''))"
  by (simp add: eval_text)

lemma ex_entities:
  "stripHtml (Some (js ''<p>AT&T: Tom &amp; Jerry, a &lt; b</p>'')) = js ''AT&T: Tom & Jerry, a < b''"
  by (simp add: eval_text)

lemma ex_entities_clean: "\<not> markup_left (js ''AT&T: Tom & Jerry, a < b'')"
  by (simp add: markup_left_def entities_def js_def re_tag_def re_lit_def)

text \<open>The amended claim on a stripped text that holds \<^verbatim>\<open>&\<close> and \<^verbatim>\<open><\<close> but no markup.\<close>

theorem stripHtml_idempotent_plain_witness:
  "\<not> markup_left (stripHtml (Some (js ''<p>AT&T: Tom &amp; Jerry, a &lt; b</p>'')))
   \<and> stripHtml (Some (js ''<p>AT&T: Tom &amp; Jerry, a &lt; b</p>'')) = js ''AT&T: Tom & Jerry, a < b''
   \<and> stripHtml (Some (stripHtml (Some (js ''<p>AT&T: Tom &amp; Jerry, a &lt; b</p>''))))
       = stripHtml (Some (js ''<p>AT&T: Tom &amp; Jerry, a &lt; b</p>''))
   \<and> text_stripHtml (Some (text_stripHtml (Some (js ''<p>AT&T: Tom &amp; Jerry, a &lt; b</p>''))))
       = text_stripHtml (Some (js ''<p>AT&T: Tom &amp; Jerry, a &lt; b</p>''))"
  using stripHtml_idempotent_plain [of "Some (js ''<p>AT&T: Tom &amp; Jerry, a &lt; b</p>'')"]
    ex_entities_clean
  unfolding text_stripHtml_eq ex_entities by simp

section \<open>Properties of the Pair Extractor\<close>

lemma then_run_bound:
  "length (snd r) \<le> n \<Longrightarrow> (\<And>ps. length ps \<le> n \<Longrightarrow> length (snd (f ps)) \<le> n) \<Longrightarrow>
   length (snd (then_run r f)) \<le> n"
  by (cases r) (auto simp: then_run_def split: option.splits)

lemma each_bound:
  "(\<And>x ps. length ps \<le> n \<Longrightarrow> length (snd (cb x ps)) \<le> n) \<Longrightarrow> length ps \<le> n \<Longrightarrow>
   length (snd (each cb xs ps)) \<le> n"
proof (induction xs arbitrary: ps)
  case Nil
  then show ?case by simp
next
  case (Cons x xs)
  show ?case
    unfolding each.simps
  proof (rule then_run_bound)
    show "length (snd (cb x ps)) \<le> n" using Cons.prems by blast
  next
    fix ps' :: "pair list"
    assume "length ps' \<le> n"
    then show "length (snd (each cb xs ps')) \<le> n"
      using Cons.IH Cons.prems(1) by blast
  qed
qed

lemma select_each_bound:
  "(\<And>x ps. length ps \<le> n \<Longrightarrow> length (snd (cb x ps)) \<le> n) \<Longrightarrow> length ps \<le> n \<Longrightarrow>
   length (snd (select_each C d sel cb ps)) \<le> n"
  unfolding select_each_def
  by (cases "ch_select C d sel") (simp_all add: each_bound)

lemma block_cb_bound: "length ps \<le> 10 \<Longrightarrow> length (snd (block_cb lc C d x ps)) \<le> 10"
proof -
  assume a: "length ps \<le> 10"
  have "\<not> 10 \<le> length ps \<Longrightarrow> length (addPair lc ps u v) \<le> 10" for u v
    using addPair_length [of lc ps u v] by simp
  with a show ?thesis
    unfolding block_cb_def by (auto split: sum.splits prod.splits)
qed

lemma link_cb_bound: "length ps \<le> 10 \<Longrightarrow> length (snd (link_cb findEm lc C d x ps)) \<le> 10"
proof -
  assume a: "length ps \<le> 10"
  have "\<not> 10 \<le> length ps \<Longrightarrow> length (addPair lc ps u v) \<le> 10" for u v
    using addPair_length [of lc ps u v] by simp
  with a show ?thesis
    unfolding link_cb_def by (auto split: sum.splits prod.splits)
qed

lemma img_candidates_bound:
  "length ps < 10 \<Longrightarrow> length (img_candidates lc cs ps) \<le> 10"
proof (induction cs arbitrary: ps)
  case Nil
  then show ?case by simp
next
  case (Cons cand rest)
  have step: "length (addPair lc ps u v) \<le> 10" for u v
    using addPair_length [of lc ps u v] Cons.prems by simp
  show ?case
  proof (cases "match_pat cand")
    case None
    then show ?thesis using Cons by simp
  next
    case (Some m)
    obtain m1 m2 where m: "m = (m1, m2)" by (cases m)
    show ?thesis
    proof (cases "10 \<le> length (addPair lc ps m1 m2)")
      case True
      then show ?thesis using Some m step [of m1 m2] by (simp add: Let_def)
    next
      case False
      then have "length (addPair lc ps m1 m2) < 10" by simp
      then have "length (img_candidates lc rest (addPair lc ps m1 m2)) \<le> 10"
        by (rule Cons.IH)
      then show ?thesis using Some m False by (simp add: Let_def)
    qed
  qed
qed

lemma img_cb_bound: "length ps \<le> 10 \<Longrightarrow> length (snd (img_cb lc C d x ps)) \<le> 10"
proof -
  assume a: "length ps \<le> 10"
  have "\<not> 10 \<le> length ps \<Longrightarrow> length (img_candidates lc cs ps) \<le> 10" for cs
    using img_candidates_bound [of ps lc cs] by simp
  with a show ?thesis
    unfolding img_cb_def Let_def by (auto split: sum.splits)
qed

lemma markup_bound: "length (snd (markup findEm lc C body)) \<le> 10"
proof (cases "ch_load C body")
  case (Inl e)
  then show ?thesis by (simp add: markup_def)
next
  case (Inr d)
  have b1: "length (snd (select_each C d ''table.text_block.block-2'' (block_cb lc C d) [])) \<le> 10"
    by (rule select_each_bound) (simp_all add: block_cb_bound)
  have b2: "length (snd (if length ps < 10
                    then select_each C d ''strong a'' (link_cb findEm lc C d) ps
                    else (None, ps))) \<le> 10" if "length ps \<le> 10" for ps
    using that by (simp add: select_each_bound link_cb_bound)
  have b3: "length (snd (if length ps < 10
          then select_each C d ''img[alt], img[title]'' (img_cb lc C d) ps
          else (None, ps))) \<le> 10" if "length ps \<le> 10" for ps
    using that by (simp add: select_each_bound img_cb_bound)
  show ?thesis
    unfolding markup_def Inr sum.case
    by (intro then_run_bound b1 b2 b3)
qed

lemma parser_extract_value:
  "parser_extractAlbumArtistPairs lc C body = Inr (snd (markup parser_findNearestEm lc C body))"
  unfolding parser_extractAlbumArtistPairs_def
  by (cases "markup parser_findNearestEm lc C body") (auto split: option.splits)

lemma fallback_bound: "length (fallback lc body ps) \<le> 10"
  by (simp add: fallback_def Let_def)

lemma extract_value:
  "\<exists>ps. extractAlbumArtistPairs lc C body = Inr ps \<and> length ps \<le> 10"
  unfolding extractAlbumArtistPairs_def
  by (cases "markup findNearestEm lc C body") (auto split: option.splits simp: fallback_bound)

text \<open>
  C1. Both extractors return a list, and it never has more than 10 entries, whatever
  the document holds and whatever the markup library does: every callback checks
  \<^verbatim>\<open>pairs.length >= 10\<close> before it submits one pair to the gate, the image loop checks it
  after every submission, and the monolithic script cuts the list to 10 as well.
\<close>

theorem extract_at_most_10:
  "(\<exists>pairs. extractAlbumArtistPairs toLowerCase C rawBody = Inr pairs \<and> length pairs \<le> 10)
   \<and> (\<exists>pairs. parser_extractAlbumArtistPairs toLowerCase C rawBody = Inr pairs \<and> length pairs \<le> 10)"
  using extract_value [of toLowerCase C rawBody] markup_bound [of parser_findNearestEm toLowerCase C rawBody]
  by (simp add: parser_extract_value)

lemma findNearestEm_parser:
  "findNearestEm C d el = Inr v \<Longrightarrow> parser_findNearestEm C d el = Inr v"
  unfolding findNearestEm_def parser_findNearestEm_def and_then_def
  by (auto split: sum.splits if_splits)

lemma link_cb_parser:
  "link_cb findNearestEm lc C d el ps = (None, ps') \<Longrightarrow>
   link_cb parser_findNearestEm lc C d el ps = (None, ps')"
  unfolding link_cb_def and_then_def
  by (auto split: sum.splits if_splits prod.splits dest: findNearestEm_parser)

lemma then_run_None:
  "then_run r f = (None, ps') \<longleftrightarrow> (\<exists>ps. r = (None, ps) \<and> f ps = (None, ps'))"
  by (cases r) (auto simp: then_run_def split: option.splits)

lemma each_transfer:
  "(\<And>x ps ps'. cb1 x ps = (None, ps') \<Longrightarrow> cb2 x ps = (None, ps')) \<Longrightarrow>
   each cb1 xs ps = (None, ps') \<Longrightarrow> each cb2 xs ps = (None, ps')"
proof (induction xs arbitrary: ps)
  case Nil
  then show ?case by simp
next
  case (Cons x xs)
  from Cons.prems(2) obtain q where q: "cb1 x ps = (None, q)" "each cb1 xs q = (None, ps')"
    by (auto simp: then_run_None)
  have "cb2 x ps = (None, q)" using q(1) Cons.prems(1) by blast
  moreover have "each cb2 xs q = (None, ps')" using Cons.IH Cons.prems(1) q(2) by blast
  ultimately show ?case by (simp add: then_run_None)
qed

lemma select_each_transfer:
  "(\<And>x ps ps'. cb1 x ps = (None, ps') \<Longrightarrow> cb2 x ps = (None, ps')) \<Longrightarrow>
   select_each C d sel cb1 ps = (None, ps') \<Longrightarrow> select_each C d sel cb2 ps = (None, ps')"
  unfolding select_each_def
  by (cases "ch_select C d sel") (auto intro: each_transfer)

lemma markup_parser:
  assumes "markup findNearestEm lc C body = (None, ps)"
  shows "markup parser_findNearestEm lc C body = (None, ps)"
proof (cases "ch_load C body")
  case (Inl e)
  then show ?thesis using assms by (simp add: markup_def)
next
  case (Inr d)
  from assms obtain p1 p2 where
    s1: "select_each C d ''table.text_block.block-2'' (block_cb lc C d) [] = (None, p1)" and
    s2: "(if length p1 < 10 then select_each C d ''strong a'' (link_cb findNearestEm lc C d) p1
          else (None, p1)) = (None, p2)" and
    s3: "(if length p2 < 10 then select_each C d ''img[alt], img[title]'' (img_cb lc C d) p2
          else (None, p2)) = (None, ps)"
    unfolding markup_def Inr sum.case then_run_None by blast
  have s2': "(if length p1 < 10 then select_each C d ''strong a'' (link_cb parser_findNearestEm lc C d) p1
          else (None, p1)) = (None, p2)"
  proof (cases "length p1 < 10")
    case True
    with s2 have "select_each C d ''strong a'' (link_cb findNearestEm lc C d) p1 = (None, p2)"
      by simp
    then have "select_each C d ''strong a'' (link_cb parser_findNearestEm lc C d) p1 = (None, p2)"
      by (rule select_each_transfer [rotated]) (rule link_cb_parser)
    with True show ?thesis by simp
  next
    case False
    with s2 show ?thesis by simp
  qed
  show ?thesis
    unfolding markup_def Inr sum.case then_run_None
    using s1 s2' s3 by blast
qed

text \<open>
  Evaluating the extractors on a newsletter: the document the body loads as is found
  without reading the body character by character, and the strategies use the markup
  library only through its other operations.
\<close>

lemma newsletter_html_differ:
  assumes "take n (fst a) \<noteq> take n (fst b)" and "n \<le> length (fst a)" and "n \<le> length (fst b)"
  shows "newsletter_html (a # as) \<noteq> newsletter_html (b # bs)"
proof
  assume "newsletter_html (a # as) = newsletter_html (b # bs)"
  then have "fst a @ (js ''</a></strong></p><p><em>'' @ snd a @ js ''</em></p></td></tr></table>'' @ newsletter_html as)
      = fst b @ (js ''</a></strong></p><p><em>'' @ snd b @ js ''</em></p></td></tr></table>'' @ newsletter_html bs)"
    by (simp add: newsletter_html_def card_html_of_def)
  then have "take n (fst a @ (js ''</a></strong></p><p><em>'' @ snd a @ js ''</em></p></td></tr></table>'' @ newsletter_html as))
      = take n (fst b @ (js ''</a></strong></p><p><em>'' @ snd b @ js ''</em></p></td></tr></table>'' @ newsletter_html bs))"
    by (rule arg_cong)
  then show False using assms by simp
qed

lemma twelve_cards_Cons:
  "twelve_cards = (js ''Artist '' @ decimal 0, js ''Album '' @ decimal 0)
      # map (\<lambda>i. (js ''Artist '' @ decimal i, js ''Album '' @ decimal i)) [1 ..< 12]"
  unfolding twelve_cards_def by (simp add: upt_conv_Cons del: decimal.simps)

lemma load_card: "ch_load card_document (Some card_html) = Inr [pink_floyd_card]"
  by (simp add: card_document_def newsletter_cheerio_def card_html_def)

lemma load_capitals: "ch_load card_document (Some card_html_capitals) = Inr [capitals_card]"
proof -
  have "newsletter_html [pink_floyd_card] \<noteq> newsletter_html [capitals_card]"
    by (rule newsletter_html_differ [of 2]) (simp_all add: pink_floyd_card_def capitals_card_def js_def)
  then show ?thesis
    by (simp add: card_document_def newsletter_cheerio_def card_html_capitals_def)
qed

lemma load_twelve: "ch_load card_document (Some twelve_cards_html) = Inr twelve_cards"
proof -
  have "newsletter_html [pink_floyd_card] \<noteq> newsletter_html twelve_cards"
    unfolding twelve_cards_Cons
    by (rule newsletter_html_differ [of 1]) (simp_all add: pink_floyd_card_def js_def del: decimal.simps)
  moreover have "newsletter_html [capitals_card] \<noteq> newsletter_html twelve_cards"
    unfolding twelve_cards_Cons
    by (rule newsletter_html_differ [of 1]) (simp_all add: capitals_card_def js_def del: decimal.simps)
  ultimately show ?thesis
    by (simp add: card_document_def newsletter_cheerio_def twelve_cards_html_def)
qed

lemma em_text_load: "em_text (C\<lparr>ch_load := l\<rparr>) d = em_text C d"
  by (rule ext) (simp add: em_text_def cong: if_cong sum.case_cong option.case_cong prod.case_cong)

lemma scan_next_load: "scan_next k (C\<lparr>ch_load := l\<rparr>) d = scan_next k C d"
proof (rule ext)
  fix nxt
  show "scan_next k (C\<lparr>ch_load := l\<rparr>) d nxt = scan_next k C d nxt"
    by (induction k arbitrary: nxt) (simp_all add: em_text_load split: sum.splits cong: if_cong sum.case_cong option.case_cong prod.case_cong)
qed

lemma findNearestEm_load: "findNearestEm (C\<lparr>ch_load := l\<rparr>) d = findNearestEm C d"
  by (rule ext) (simp add: findNearestEm_def em_text_load scan_next_load cong: if_cong sum.case_cong option.case_cong prod.case_cong)

lemma block_cb_load: "block_cb lc (C\<lparr>ch_load := l\<rparr>) d = block_cb lc C d"
  by (simp add: block_cb_def block_candidate_def fun_eq_iff cong: if_cong sum.case_cong option.case_cong prod.case_cong)

lemma link_cb_load: "link_cb findNearestEm lc (C\<lparr>ch_load := l\<rparr>) d = link_cb findNearestEm lc C d"
  by (simp add: link_cb_def findNearestEm_load fun_eq_iff cong: if_cong sum.case_cong option.case_cong prod.case_cong)

lemma img_cb_load: "img_cb lc (C\<lparr>ch_load := l\<rparr>) d = img_cb lc C d"
  by (simp add: img_cb_def fun_eq_iff cong: if_cong sum.case_cong option.case_cong prod.case_cong)

lemma select_each_load: "select_each (C\<lparr>ch_load := l\<rparr>) d = select_each C d"
  by (simp add: select_each_def fun_eq_iff)

lemma markup_loaded:
  "ch_load C body = Inr d \<Longrightarrow>
   markup findNearestEm lc C body = markup findNearestEm lc (C\<lparr>ch_load := \<lambda>b. Inr d\<rparr>) None"
  by (simp add: markup_def block_cb_load link_cb_load img_cb_load select_each_load cong: if_cong sum.case_cong option.case_cong prod.case_cong)

lemma card_loaded: "card_document\<lparr>ch_load := l\<rparr> = (newsletter_cheerio [])\<lparr>ch_load := l\<rparr>"
  by (simp add: card_document_def newsletter_cheerio_def)

text \<open>Twelve cards give ten pairs.\<close>

lemma ex_12_markup:
  "\<exists>ps. markup findNearestEm ascii_toLowerCase card_document (Some twelve_cards_html) = (None, ps)
      \<and> length ps = 10"
proof -
  let ?m = "markup findNearestEm ascii_toLowerCase ((newsletter_cheerio [])\<lparr>ch_load := \<lambda>b. Inr twelve_cards\<rparr>) None"
  have "(case ?m of (None, ps) \<Rightarrow> length ps = 10 | (Some e, ps) \<Rightarrow> False)"
    by code_simp
  then have "\<exists>ps. ?m = (None, ps) \<and> length ps = 10"
    by (cases ?m) (auto split: option.splits)
  then show ?thesis unfolding markup_loaded [OF load_twelve] card_loaded .
qed

lemma ex_12_script:
  "(case extractAlbumArtistPairs ascii_toLowerCase card_document (Some twelve_cards_html)
      of Inl e \<Rightarrow> None | Inr ps \<Rightarrow> Some (length ps)) = Some 10"
proof -
  from ex_12_markup obtain ps where
    m: "markup findNearestEm ascii_toLowerCase card_document (Some twelve_cards_html) = (None, ps)"
    and l: "length ps = 10" by blast
  show ?thesis using l by (simp add: extractAlbumArtistPairs_def m)
qed

lemma ex_12_parser:
  "(case parser_extractAlbumArtistPairs ascii_toLowerCase card_document (Some twelve_cards_html)
      of Inl e \<Rightarrow> None | Inr ps \<Rightarrow> Some (length ps)) = Some 10"
proof -
  from ex_12_markup obtain ps where
    m: "markup findNearestEm ascii_toLowerCase card_document (Some twelve_cards_html) = (None, ps)"
    and l: "length ps = 10" by blast
  show ?thesis using l markup_parser [OF m] by (simp add: parser_extract_value)
qed

theorem extract_at_most_10_witness:
  "(\<exists>pairs. extractAlbumArtistPairs ascii_toLowerCase card_document
               (Some twelve_cards_html) = Inr pairs \<and> length pairs \<le> 10)
   \<and> (\<exists>pairs. parser_extractAlbumArtistPairs ascii_toLowerCase card_document
               (Some twelve_cards_html) = Inr pairs \<and> length pairs \<le> 10)
   \<and> (case extractAlbumArtistPairs ascii_toLowerCase card_document (Some twelve_cards_html)
      of Inl e \<Rightarrow> None | Inr ps \<Rightarrow> Some (length ps)) = Some 10
   \<and> (case parser_extractAlbumArtistPairs ascii_toLowerCase card_document (Some twelve_cards_html)
      of Inl e \<Rightarrow> None | Inr ps \<Rightarrow> Some (length ps)) = Some 10"
  using extract_at_most_10 [of ascii_toLowerCase card_document "Some twelve_cards_html"]
    ex_12_script ex_12_parser
  by blast



lemma ex_card_markup:
  "markup findNearestEm ascii_toLowerCase card_document (Some card_html)
     = (None, [\<lparr>artist = js ''Pink Floyd'', album = js ''The Dark Side of the Moon''\<rparr>])"
proof -
  have "markup findNearestEm ascii_toLowerCase ((newsletter_cheerio [])\<lparr>ch_load := \<lambda>b. Inr [pink_floyd_card]\<rparr>) None
     = (None, [\<lparr>artist = js ''Pink Floyd'', album = js ''The Dark Side of the Moon''\<rparr>])"
    by code_simp
  then show ?thesis unfolding markup_loaded [OF load_card] card_loaded .
qed


text \<open>The definitions that evaluate the extractors on a concrete document.\<close>

lemmas eval_extract = extractAlbumArtistPairs_def parser_extractAlbumArtistPairs_def markup_def
  plain_document_def select_each_def then_run_def fallback_def text_lines_def
  patternArtistDashAlbum_def patternAlbumByArtist_def dash_tail_def by_tail_def dot_def
  addPair_def ascii_toLowerCase_def Let_def

lemma ex_beatles_mono:
  "extractAlbumArtistPairs ascii_toLowerCase plain_document (Some (js ''The Beatles - Abbey Road''))
     = Inr [\<lparr>artist = js ''The Beatles'', album = js ''Abbey Road''\<rparr>]"
  by (simp add: eval_extract eval_text)



lemma markup_no_candidates:
  "no_candidates C body \<Longrightarrow> markup findEm lc C body = (None, [])"
  unfolding no_candidates_def markup_def
  by (auto split: sum.splits simp: select_each_def then_run_def)

lemma extract_markup_threw:
  "markup findNearestEm lc C body = (Some e, ps) \<Longrightarrow>
   extractAlbumArtistPairs lc C body = Inr (fallback lc body ps)"
  by (simp add: extractAlbumArtistPairs_def)

lemma ex_html_fallback: "fallback lc (Some (js ''<html></html>'')) [] = []"
  by (simp add: fallback_def text_lines_def eval_text)

lemma ex_null_markup:
  "markup findEm lc plain_document None = (Some (Exn (js ''cheerio.load() expects a string'')), [])"
  by (simp add: markup_def plain_document_def)

lemma ex_null_fallback: "fallback lc None [] = []"
  by (simp add: fallback_def text_lines_def eval_text)

lemma ex_plain_no_candidates: "no_candidates plain_document (Some s)"
  by (simp add: no_candidates_def plain_document_def)

text \<open>
  C4 as stated fails for the monolithic script: in the plain-text body
  \<^verbatim>\<open>The Beatles - Abbey Road\<close> the markup strategies find no candidate structure, and the
  script returns the pair of its plain-text fallback, not the empty list.
\<close>

theorem script_returns_pair_without_candidates:
  "no_candidates plain_document (Some (js ''The Beatles - Abbey Road''))
   \<and> extractAlbumArtistPairs ascii_toLowerCase plain_document (Some (js ''The Beatles - Abbey Road''))
       = Inr [\<lparr>artist = js ''The Beatles'', album = js ''Abbey Road''\<rparr>]
   \<and> extractAlbumArtistPairs ascii_toLowerCase plain_document (Some (js ''The Beatles - Abbey Road''))
       \<noteq> Inr []"
  using ex_plain_no_candidates [of "js ''The Beatles - Abbey Road''"] ex_beatles_mono by simp

text \<open>
  C4 (as amended). For every body, \<^verbatim>\<open>null\<close> included, and whatever the markup library does
  (any of its operations may throw), both extractors return a list: an exception of the
  markup phase is caught, after which the monolithic script runs its plain-text fallback
  on the pairs collected so far and the modular parser returns them. On a body in which
  the markup strategies find no candidate the modular parser returns the empty list and
  the monolithic script returns what its plain-text fallback finds, entered with the
  empty list; on \<^verbatim>\<open><html></html>\<close> that is the empty list.
\<close>

theorem extract_never_raises:
  "(\<exists>pairs. extractAlbumArtistPairs toLowerCase C rawBody = Inr pairs)
   \<and> (\<exists>pairs. parser_extractAlbumArtistPairs toLowerCase C rawBody = Inr pairs)
   \<and> (markup findNearestEm toLowerCase C rawBody = (Some e, caught) \<longrightarrow>
        extractAlbumArtistPairs toLowerCase C rawBody = Inr (fallback toLowerCase rawBody caught))
   \<and> (markup parser_findNearestEm toLowerCase C rawBody = (Some e, caught) \<longrightarrow>
        parser_extractAlbumArtistPairs toLowerCase C rawBody = Inr caught)
   \<and> (no_candidates C rawBody \<longrightarrow>
        parser_extractAlbumArtistPairs toLowerCase C rawBody = Inr [])
   \<and> (no_candidates C rawBody \<longrightarrow>
        extractAlbumArtistPairs toLowerCase C rawBody = Inr (fallback toLowerCase rawBody []))
   \<and> (no_candidates C (Some (js ''<html></html>'')) \<longrightarrow>
        extractAlbumArtistPairs toLowerCase C (Some (js ''<html></html>'')) = Inr [])"
proof (intro conjI impI)
  show "\<exists>pairs. extractAlbumArtistPairs toLowerCase C rawBody = Inr pairs"
    using extract_value [of toLowerCase C rawBody] by blast
  show "\<exists>pairs. parser_extractAlbumArtistPairs toLowerCase C rawBody = Inr pairs"
    by (simp add: parser_extract_value)
  show "extractAlbumArtistPairs toLowerCase C rawBody = Inr (fallback toLowerCase rawBody caught)"
    if "markup findNearestEm toLowerCase C rawBody = (Some e, caught)"
    using that by (rule extract_markup_threw)
  show "parser_extractAlbumArtistPairs toLowerCase C rawBody = Inr caught"
    if "markup parser_findNearestEm toLowerCase C rawBody = (Some e, caught)"
    using that by (simp add: parser_extract_value)
  show "parser_extractAlbumArtistPairs toLowerCase C rawBody = Inr []"
    if "no_candidates C rawBody"
    using markup_no_candidates [OF that] by (simp add: parser_extract_value)
  show "extractAlbumArtistPairs toLowerCase C rawBody = Inr (fallback toLowerCase rawBody [])"
    if "no_candidates C rawBody"
    using markup_no_candidates [OF that, of findNearestEm toLowerCase]
    by (simp add: extractAlbumArtistPairs_def)
  show "extractAlbumArtistPairs toLowerCase C (Some (js ''<html></html>'')) = Inr []"
    if "no_candidates C (Some (js ''<html></html>''))"
    using markup_no_candidates [OF that, of findNearestEm toLowerCase]
    by (simp add: extractAlbumArtistPairs_def ex_html_fallback)
qed

lemma ex_dylan_fallback:
  "fallback ascii_toLowerCase (Some (js ''Blonde on Blonde by Bob Dylan'')) []
     = [\<lparr>artist = js ''Bob Dylan'', album = js ''Blonde on Blonde''\<rparr>]"
  by (simp add: eval_extract eval_text)

text \<open>The amended claim on \<^verbatim>\<open>null\<close>, on \<^verbatim>\<open><html></html>\<close> and on a plain-text line.\<close>

theorem extract_never_raises_witness:
  "markup findNearestEm ascii_toLowerCase plain_document None
     = (Some (Exn (js ''cheerio.load() expects a string'')), [])
   \<and> extractAlbumArtistPairs ascii_toLowerCase plain_document None = Inr []
   \<and> markup parser_findNearestEm ascii_toLowerCase plain_document None
     = (Some (Exn (js ''cheerio.load() expects a string'')), [])
   \<and> parser_extractAlbumArtistPairs ascii_toLowerCase plain_document None = Inr []
   \<and> no_candidates plain_document (Some (js ''<html></html>''))
   \<and> parser_extractAlbumArtistPairs ascii_toLowerCase plain_document (Some (js ''<html></html>'')) = Inr []
   \<and> extractAlbumArtistPairs ascii_toLowerCase plain_document (Some (js ''<html></html>'')) = Inr []
   \<and> no_candidates plain_document (Some (js ''Blonde on Blonde by Bob Dylan''))
   \<and> parser_extractAlbumArtistPairs ascii_toLowerCase plain_document
        (Some (js ''Blonde on Blonde by Bob Dylan'')) = Inr []
   \<and> extractAlbumArtistPairs ascii_toLowerCase plain_document (Some (js ''Blonde on Blonde by Bob Dylan''))
       = Inr [\<lparr>artist = js ''Bob Dylan'', album = js ''Blonde on Blonde''\<rparr>]"
  using extract_never_raises [of ascii_toLowerCase plain_document None
      "Exn (js ''cheerio.load() expects a string'')" "[]"]
    extract_never_raises [of ascii_toLowerCase plain_document "Some (js ''<html></html>'')"]
    extract_never_raises [of ascii_toLowerCase plain_document "Some (js ''Blonde on Blonde by Bob Dylan'')"]
    ex_null_markup [of findNearestEm ascii_toLowerCase]
    ex_null_markup [of parser_findNearestEm ascii_toLowerCase]
    ex_plain_no_candidates [of "js ''<html></html>''"]
    ex_plain_no_candidates [of "js ''Blonde on Blonde by Bob Dylan''"]
  by (simp add: ex_null_fallback ex_dylan_fallback)

lemma split_on_none: "\<forall>c \<in> set s. \<not> P c \<Longrightarrow> split_on P s = [s]"
  by (induction s) auto

lemma is_line_terminator_space: "is_line_terminator c \<Longrightarrow> is_space c"
  by (simp add: is_space_def)

lemma not_lt_space: "\<not> is_line_terminator 0x20"
  by (simp add: is_line_terminator_def)

lemma stripHtml_no_line_terminator:
  "c \<in> set (stripHtml body) \<Longrightarrow> \<not> is_line_terminator c"
proof
  assume c: "c \<in> set (stripHtml body)" and lt: "is_line_terminator c"
  have "c = 0x20"
    using collapsed_space [OF collapsed_stripHtml c] lt by (simp add: is_line_terminator_space)
  with lt show False using not_lt_space by simp
qed

lemma text_lines_stripHtml:
  "text_lines (stripHtml body) = filter (\<lambda>l. l \<noteq> []) [trim (stripHtml body)]"
proof -
  have "\<forall>c \<in> set (stripHtml body). \<not> (c = 0x0A \<or> c = 0x0D \<or> c = 0x2028 \<or> c = 0x2029)"
    using stripHtml_no_line_terminator [of _ body] by (auto simp: is_line_terminator_def)
  then have "split_on (\<lambda>c. c = 0x0A \<or> c = 0x0D \<or> c = 0x2028 \<or> c = 0x2029) (stripHtml body)
      = [stripHtml body]"
    by (rule split_on_none)
  then show ?thesis by (simp add: text_lines_def)
qed

lemma line_loop_one:
  "\<exists>new. line_loop lc [l] ps = ps @ new \<and> length new \<le> 1"
  using addPair_prefix
  by (auto split: option.splits)

text \<open>
  C10. The text \<^verbatim>\<open>stripHtml\<close> returns holds no line terminator, since every white-space
  run has become one space; so the split of the fallback yields at most one non-empty
  line, and the fallback adds at most one pair to the list it is entered with.
\<close>

theorem fallback_adds_at_most_one:
  "length (text_lines (stripHtml rawBody)) \<le> 1
   \<and> list_all (\<lambda>c. \<not> is_line_terminator c) (stripHtml rawBody)
   \<and> (\<exists>new. length new \<le> 1 \<and> fallback toLowerCase rawBody pairs = take 10 (pairs @ new))"
proof (intro conjI)
  show "length (text_lines (stripHtml rawBody)) \<le> 1"
    by (simp add: text_lines_stripHtml)
  show "list_all (\<lambda>c. \<not> is_line_terminator c) (stripHtml rawBody)"
    using stripHtml_no_line_terminator by (auto simp: list_all_iff)
  show "\<exists>new. length new \<le> 1 \<and> fallback toLowerCase rawBody pairs = take 10 (pairs @ new)"
  proof (cases "trim (stripHtml rawBody) = []")
    case True
    then have "fallback toLowerCase rawBody pairs = take 10 (pairs @ [])"
      by (simp add: fallback_def text_lines_stripHtml)
    then show ?thesis by (intro exI [of _ "[]"]) simp
  next
    case False
    then have f: "fallback toLowerCase rawBody pairs
        = take 10 (line_loop toLowerCase [trim (stripHtml rawBody)] pairs)"
      by (simp add: fallback_def text_lines_stripHtml)
    obtain new where "line_loop toLowerCase [trim (stripHtml rawBody)] pairs = pairs @ new"
      and "length new \<le> 1"
      using line_loop_one by blast
    then show ?thesis using f by auto
  qed
qed

lemma ex_two_lines:
  "fallback ascii_toLowerCase
     (Some (js ''The Beatles - Abbey Road'' @ [0x0A] @ js ''Pink Floyd - The Wall'')) []
   = [\<lparr>artist = js ''The Beatles'', album = js ''Abbey Road Pink Floyd - The Wall''\<rparr>]"
  by (simp add: eval_extract eval_text)

theorem fallback_adds_at_most_one_witness:
  "length (text_lines (stripHtml
       (Some (js ''The Beatles - Abbey Road'' @ [0x0A] @ js ''Pink Floyd - The Wall'')))) \<le> 1
   \<and> list_all (\<lambda>c. \<not> is_line_terminator c) (stripHtml
       (Some (js ''The Beatles - Abbey Road'' @ [0x0A] @ js ''Pink Floyd - The Wall'')))
   \<and> (\<exists>new. length new \<le> 1 \<and> fallback ascii_toLowerCase
       (Some (js ''The Beatles - Abbey Road'' @ [0x0A] @ js ''Pink Floyd - The Wall'')) []
         = take 10 ([] @ new))"
  by (rule fallback_adds_at_most_one)

section \<open>Properties of the decoder of encoded words\<close>

lemma gsub_numeral: "gsub m (numeral k) s = gsub m 0 (drop (numeral k) s)"
  by (rule gsub_drop)

text \<open>The definitions that evaluate the decoder on a concrete string.\<close>

lemmas eval_mime = gsub_numeral decodeMimeEncodedWords_def replace_with_def re_encoded_word_def decode_word_def
  try_catch_def re_hex_escape_def hex_digit_def replace_def re_lit_def js_def sample_base64_def
  Let_def

text \<open>
  C7 fails on the code. In the header \<^verbatim>\<open>Re: =?utf-8?B?!!!?= =?utf-8?Q?a_b?=\<close> the payload
  \<^verbatim>\<open>!!!\<close> of the first run is no base64 text. Nothing in the block of the callback throws,
  so its handler is never entered, for this run as for any other: the run is replaced by
  what the host's decoder returns for the payload, which is the empty string for \<^verbatim>\<open>!!!\<close>,
  and it is not left in its encoded form. The second run is decoded as usual.
\<close>

theorem undecodable_run_is_replaced:
  "decodeMimeEncodedWords base64_utf8 (Some (js ''Re: =?utf-8?B?!!!?= =?utf-8?Q?a_b?=''))
     = js ''Re: '' @ base64_utf8 (js ''!!!'') @ js '' a b''
   \<and> decodeMimeEncodedWords sample_base64 (Some (js ''Re: =?utf-8?B?!!!?= =?utf-8?Q?a_b?=''))
     = js ''Re:  a b''
   \<and> decodeMimeEncodedWords sample_base64 (Some (js ''Re: =?utf-8?B?!!!?= =?utf-8?Q?a_b?=''))
     \<noteq> js ''Re: =?utf-8?B?!!!?= a b''
   \<and> decode_word base64_utf8 enc payload
     = (if enc = 0x42 \<or> enc = 0x62 then base64_utf8 payload
        else replace_with re_hex_escape (replace (re_lit (js ''_'')) (js '' '') payload))"
proof (intro conjI)
  show "decodeMimeEncodedWords base64_utf8 (Some (js ''Re: =?utf-8?B?!!!?= =?utf-8?Q?a_b?=''))
     = js ''Re: '' @ base64_utf8 (js ''!!!'') @ js '' a b''"
    by (simp add: eval_mime)
  show "decodeMimeEncodedWords sample_base64 (Some (js ''Re: =?utf-8?B?!!!?= =?utf-8?Q?a_b?=''))
     = js ''Re:  a b''"
    by (simp add: eval_mime)
  show "decodeMimeEncodedWords sample_base64 (Some (js ''Re: =?utf-8?B?!!!?= =?utf-8?Q?a_b?=''))
     \<noteq> js ''Re: =?utf-8?B?!!!?= a b''"
    by (simp add: eval_mime)
  show "decode_word base64_utf8 enc payload
     = (if enc = 0x42 \<or> enc = 0x62 then base64_utf8 payload
        else replace_with re_hex_escape (replace (re_lit (js ''_'')) (js '' '') payload))"
    by (simp add: decode_word_def try_catch_def)
qed

section \<open>Properties of the Cross-Email Aggregator\<close>

lemma uniqueBy_loop_keys:
  "keyFn ` set (uniqueBy_loop keyFn xs seen result) = keyFn ` set result \<union> (keyFn ` set xs - seen)"
  by (induction xs arbitrary: seen result) (auto simp: Let_def)

lemma uniqueBy_loop_distinct:
  "distinct (map keyFn result) \<Longrightarrow> keyFn ` set result \<subseteq> seen \<Longrightarrow>
   distinct (map keyFn (uniqueBy_loop keyFn xs seen result))"
proof (induction xs arbitrary: seen result)
  case Nil
  then show ?case by simp
next
  case (Cons a xs)
  show ?case
  proof (cases "keyFn a \<in> seen")
    case True
    then show ?thesis using Cons by (simp add: Let_def)
  next
    case False
    then have "keyFn a \<notin> keyFn ` set result" using Cons.prems(2) by auto
    then have d: "distinct (map keyFn (result @ [a]))" using Cons.prems(1) by simp
    have s: "keyFn ` set (result @ [a]) \<subseteq> insert (keyFn a) seen" using Cons.prems(2) by auto
    show ?thesis using False Cons.IH [OF d s] by (simp add: Let_def)
  qed
qed

lemma uniqueBy_keys: "keyFn ` set (uniqueBy xs keyFn) = keyFn ` set xs"
  by (simp add: uniqueBy_def uniqueBy_loop_keys)

lemma uniqueBy_distinct: "distinct (map keyFn (uniqueBy xs keyFn))"
  by (simp add: uniqueBy_def uniqueBy_loop_distinct)

lemma uniqueBy_empty: "uniqueBy xs keyFn = [] \<longleftrightarrow> xs = []"
  using uniqueBy_keys [of keyFn xs] by (cases xs) (auto simp: uniqueBy_def)

lemma uniqueBy_count:
  "x \<in> set xs \<Longrightarrow> length (filter (\<lambda>y. keyFn y = keyFn x) (uniqueBy xs keyFn)) = 1"
  by (rule distinct_key_count [OF uniqueBy_distinct]) (simp add: uniqueBy_keys)

lemma collect_pairs_bucket:
  "set (bucket_of st m) \<subseteq> set (bucket_of (collect_pairs lc st mail raw) m)"
  unfolding collect_pairs_def bucket_of_def Let_def
  by (auto simp: update_conv' split: jsvalue.splits option.splits)

lemma collect_pairs_keys:
  "pair_key lc ` set raw \<subseteq> pair_key lc ` set (bucket_of (collect_pairs lc st mail raw) (formatMonthYYYYMM (mail_date mail)))"
proof (cases "uniqueBy raw (pair_key lc) = []")
  case True
  then have "raw = []" by (simp add: uniqueBy_empty)
  then show ?thesis by simp
next
  case False
  have "pair_key lc ` set raw = pair_key lc ` set (uniqueBy raw (pair_key lc))"
    by (simp add: uniqueBy_keys)
  also have "\<dots> \<subseteq> pair_key lc ` set (bucket_of (collect_pairs lc st mail raw) (formatMonthYYYYMM (mail_date mail)))"
    using False unfolding collect_pairs_def bucket_of_def Let_def
    by (auto simp: update_conv' split: jsvalue.splits option.splits)
  finally show ?thesis .
qed

lemma collect_pairs_months:
  "distinct (map fst (monthToPairs st)) \<Longrightarrow> distinct (map fst (monthToPairs (collect_pairs lc st mail raw)))"
  unfolding collect_pairs_def Let_def
  by (auto simp: distinct_update split: jsvalue.splits)

lemma collect_pairs_uids:
  "u \<in> set (successfulEmailUids (collect_pairs lc st mail raw)) \<Longrightarrow>
   u \<in> set (successfulEmailUids st) \<or> (mail_uid mail = Integer u \<and> uniqueBy raw (pair_key lc) \<noteq> [])"
  unfolding collect_pairs_def Let_def Set_add_def
  by (auto split: jsvalue.splits if_splits)

lemma main_step_of:
  "main_step lc b64 C = step_of (main_skips lc b64) (\<lambda>mail. extractAlbumArtistPairs lc C (Some (mail_body mail))) lc"
  by (intro ext) (simp add: main_step_def step_of_def)

lemma sync_step_of:
  "sync_step lc C = step_of (sync_skips lc) (\<lambda>mail. parser_extractAlbumArtistPairs lc C (Some (mail_body mail))) lc"
  by (intro ext) (simp add: sync_step_def step_of_def)

lemma step_of_bucket:
  "step_of skip ex lc st mail = Inr st' \<Longrightarrow> set (bucket_of st m) \<subseteq> set (bucket_of st' m)"
  unfolding step_of_def using collect_pairs_bucket [of st m lc mail]
  by (auto split: if_splits sum.splits)

lemma step_of_months:
  "step_of skip ex lc st mail = Inr st' \<Longrightarrow> distinct (map fst (monthToPairs st)) \<Longrightarrow>
   distinct (map fst (monthToPairs st'))"
  unfolding step_of_def using collect_pairs_months
  by (auto split: if_splits sum.splits)

lemma loop_bucket:
  "for_each_mail (step_of skip ex lc) st mails = Inr st' \<Longrightarrow>
   set (bucket_of st m) \<subseteq> set (bucket_of st' m)"
proof (induction mails arbitrary: st)
  case Nil
  then show ?case by simp
next
  case (Cons mail rest)
  then obtain st1 where s: "step_of skip ex lc st mail = Inr st1"
    and r: "for_each_mail (step_of skip ex lc) st1 rest = Inr st'"
    by (auto split: sum.splits)
  show ?case
    using step_of_bucket [OF s, of m] Cons.IH [OF r] by blast
qed

lemma loop_months:
  "for_each_mail (step_of skip ex lc) st mails = Inr st' \<Longrightarrow> distinct (map fst (monthToPairs st)) \<Longrightarrow>
   distinct (map fst (monthToPairs st'))"
proof (induction mails arbitrary: st)
  case Nil
  then show ?case by simp
next
  case (Cons mail rest)
  then obtain st1 where s: "step_of skip ex lc st mail = Inr st1"
    and r: "for_each_mail (step_of skip ex lc) st1 rest = Inr st'"
    by (auto split: sum.splits)
  show ?case
    using step_of_months [OF s] Cons.IH [OF r] Cons.prems(2) by blast
qed

lemma loop_keys:
  "for_each_mail (step_of skip ex lc) st mails = Inr st' \<Longrightarrow> mail \<in> set mails \<Longrightarrow>
   \<not> skip mail \<Longrightarrow> ex mail = Inr raw \<Longrightarrow>
   pair_key lc ` set raw \<subseteq> pair_key lc ` set (bucket_of st' (formatMonthYYYYMM (mail_date mail)))"
proof (induction mails arbitrary: st)
  case Nil
  then show ?case by simp
next
  case (Cons x rest)
  then obtain st1 where s: "step_of skip ex lc st x = Inr st1"
    and r: "for_each_mail (step_of skip ex lc) st1 rest = Inr st'"
    by (auto split: sum.splits)
  show ?case
  proof (cases "mail = x")
    case True
    then have "st1 = collect_pairs lc st mail raw"
      using s Cons.prems(3,4) by (simp add: step_of_def)
    then have "pair_key lc ` set raw \<subseteq> pair_key lc ` set (bucket_of st1 (formatMonthYYYYMM (mail_date mail)))"
      using collect_pairs_keys by simp
    then show ?thesis
      using loop_bucket [OF r, of "formatMonthYYYYMM (mail_date mail)"] by blast
  next
    case False
    then have "mail \<in> set rest" using Cons.prems(2) by simp
    then show ?thesis using Cons.IH [OF r] Cons.prems(3,4) by blast
  qed
qed

lemma loop_uids:
  "for_each_mail (step_of skip ex lc) st mails = Inr st' \<Longrightarrow> u \<in> set (successfulEmailUids st') \<Longrightarrow>
   u \<in> set (successfulEmailUids st)
   \<or> (\<exists>mail \<in> set mails. mail_uid mail = Integer u \<and> \<not> skip mail
        \<and> (\<exists>raw. ex mail = Inr raw \<and> uniqueBy raw (pair_key lc) \<noteq> []))"
proof (induction mails arbitrary: st)
  case Nil
  then show ?case by simp
next
  case (Cons x rest)
  then obtain st1 where s: "step_of skip ex lc st x = Inr st1"
    and r: "for_each_mail (step_of skip ex lc) st1 rest = Inr st'"
    by (auto split: sum.splits)
  from Cons.IH [OF r Cons.prems(2)] show ?case
  proof
    assume "u \<in> set (successfulEmailUids st1)"
    then have "u \<in> set (successfulEmailUids st)
       \<or> (mail_uid x = Integer u \<and> \<not> skip x \<and> (\<exists>raw. ex x = Inr raw \<and> uniqueBy raw (pair_key lc) \<noteq> []))"
      using s collect_pairs_uids unfolding step_of_def
      by (fastforce split: if_splits sum.splits)
    then show ?thesis by auto
  next
    assume "\<exists>mail \<in> set rest. mail_uid mail = Integer u \<and> \<not> skip mail
        \<and> (\<exists>raw. ex mail = Inr raw \<and> uniqueBy raw (pair_key lc) \<noteq> [])"
    then show ?thesis by auto
  qed
qed

lemma bucket_handed_over:
  assumes d: "distinct (map fst (monthToPairs st))"
    and k: "pair_key lc p \<in> pair_key lc ` set (bucket_of st m)"
  shows "\<exists>bucket. (m, bucket) \<in> set (resolver_buckets lc st)
           \<and> length (filter (\<lambda>q. pair_key lc q = pair_key lc p) bucket) = 1"
proof -
  have "\<exists>raw. map_of (monthToPairs st) m = Some raw \<and> pair_key lc p \<in> pair_key lc ` set raw"
    using k unfolding bucket_of_def by (cases "map_of (monthToPairs st) m") auto
  then obtain raw where raw: "map_of (monthToPairs st) m = Some raw"
    and kr: "pair_key lc p \<in> pair_key lc ` set raw"
    by blast
  let ?b = "uniqueBy raw (pair_key lc)"
  have kb: "pair_key lc p \<in> pair_key lc ` set ?b" using kr by (simp add: uniqueBy_keys)
  then have ne: "length ?b \<noteq> 0" by auto
  have "(m, raw) \<in> set (monthToPairs st)" using raw by (rule map_of_SomeD)
  then have "(m, ?b) \<in> set (resolver_buckets lc st)"
    unfolding resolver_buckets_def using ne by (auto simp: image_iff) force
  moreover have "length (filter (\<lambda>q. pair_key lc q = pair_key lc p) ?b) = 1"
    using uniqueBy_distinct kb by (rule distinct_key_count)
  ultimately show ?thesis by blast
qed

lemma resolver_buckets_distinct:
  "(m, bucket) \<in> set (resolver_buckets lc st) \<Longrightarrow> distinct (map (pair_key lc) bucket)"
  unfolding resolver_buckets_def by (auto simp: uniqueBy_distinct)

lemma resolver_buckets_months:
  "distinct (map fst (monthToPairs st)) \<Longrightarrow> distinct (map fst (resolver_buckets lc st))"
proof -
  assume d: "distinct (map fst (monthToPairs st))"
  have "map fst (map (\<lambda>(monthStr, rawPairs). (monthStr, uniqueBy rawPairs (pair_key lc))) (monthToPairs st))
      = map fst (monthToPairs st)"
    by (induction "monthToPairs st") (auto simp: case_prod_beta)
  then show ?thesis
    unfolding resolver_buckets_def using d distinct_map_filter by metis
qed

lemma ex_accept_main: "\<not> main_skips ascii_toLowerCase sample_base64 (sample_mail uid body)"
  by (simp add: main_skips_def sample_mail_def EXPECTED_FROM_def EXPECTED_SUBJECT_def
      ascii_toLowerCase_def eval_mime trim_def is_space_def is_line_terminator_def)

lemma ex_accept_sync: "\<not> sync_skips ascii_toLowerCase (sample_mail uid body)"
  by (simp add: sync_skips_def sample_mail_def ascii_toLowerCase_def js_def)

lemma ex_month: "formatMonthYYYYMM (Date 2025 0) = js ''2025-01''"
  by (simp add: formatMonthYYYYMM_def padStart2_def js_def)

lemma sample_mail_sel:
  "mail_uid (sample_mail uid body) = uid"
  "mail_date (sample_mail uid body) = Date 2025 0"
  "mail_body (sample_mail uid body) = body"
  by (simp_all add: sample_mail_def)

lemma extract_of_markup:
  "markup findNearestEm lc C body = (None, p # ps) \<Longrightarrow>
   extractAlbumArtistPairs lc C body = Inr (p # ps)
   \<and> parser_extractAlbumArtistPairs lc C body = Inr (p # ps)"
proof -
  assume m: "markup findNearestEm lc C body = (None, p # ps)"
  have "length (p # ps) \<le> 10" using markup_bound [of findNearestEm lc C body] m by simp
  then have "extractAlbumArtistPairs lc C body = Inr (p # ps)"
    by (simp add: extractAlbumArtistPairs_def m)
  moreover have "parser_extractAlbumArtistPairs lc C body = Inr (p # ps)"
    using markup_parser [OF m] by (simp add: parser_extract_value)
  ultimately show ?thesis by simp
qed

lemma ex_capitals_markup:
  "markup findNearestEm ascii_toLowerCase card_document (Some card_html_capitals)
     = (None, [\<lparr>artist = js ''PINK FLOYD'', album = js ''THE DARK SIDE OF THE MOON''\<rparr>])"
proof -
  have "markup findNearestEm ascii_toLowerCase ((newsletter_cheerio [])\<lparr>ch_load := \<lambda>b. Inr [capitals_card]\<rparr>) None
     = (None, [\<lparr>artist = js ''PINK FLOYD'', album = js ''THE DARK SIDE OF THE MOON''\<rparr>])"
    by code_simp
  then show ?thesis unfolding markup_loaded [OF load_capitals] card_loaded .
qed

lemma load_html: "ch_load card_document (Some (js ''<html></html>'')) = Inr []"
proof -
  have "newsletter_html (a # as) \<noteq> js ''<html></html>''" for a as
    by (simp add: newsletter_html_def card_html_of_def js_def)
  then show ?thesis
    by (simp add: card_document_def newsletter_cheerio_def twelve_cards_Cons)
qed

lemma ex_html_no_candidates: "no_candidates card_document (Some (js ''<html></html>''))"
  by (simp add: no_candidates_def load_html) (simp add: card_document_def newsletter_cheerio_def)

lemma ex_html_extract:
  "extractAlbumArtistPairs lc card_document (Some (js ''<html></html>'')) = Inr []"
  "parser_extractAlbumArtistPairs lc card_document (Some (js ''<html></html>'')) = Inr []"
  using markup_no_candidates [OF ex_html_no_candidates]
  by (simp_all add: extractAlbumArtistPairs_def parser_extract_value ex_html_fallback)

text \<open>The extractors and the aggregation on the sample card, evaluated.\<close>

lemmas ex_card = extract_of_markup [OF ex_card_markup, THEN conjunct1]
  extract_of_markup [OF ex_card_markup, THEN conjunct2]
  extract_of_markup [OF ex_capitals_markup, THEN conjunct1]
  extract_of_markup [OF ex_capitals_markup, THEN conjunct2]

lemmas eval_collect = main_collect_def main_step_def sync_collect_def sync_step_def ex_accept_main
  ex_accept_sync sample_mail_sel ex_card ex_html_extract collect_pairs_def uniqueBy_def pair_key_def
  ascii_toLowerCase_def ex_month empty_aggregation_def Set_add_def Let_def resolver_buckets_def

lemma ex_two_mails_main:
  "main_collect ascii_toLowerCase sample_base64 card_document
     [sample_mail (Integer 7) card_html, sample_mail (Integer 8) card_html_capitals]
   = Inr \<lparr>monthToPairs = [(js ''2025-01'',
             [\<lparr>artist = js ''Pink Floyd'', album = js ''The Dark Side of the Moon''\<rparr>,
              \<lparr>artist = js ''PINK FLOYD'', album = js ''THE DARK SIDE OF THE MOON''\<rparr>])],
          successfulEmailUids = [7, 8], warnings = []\<rparr>"
  by (simp add: eval_collect js_def)

lemma ex_two_mails_sync:
  "sync_collect ascii_toLowerCase card_document
     [sample_mail (Integer 7) card_html, sample_mail (Integer 8) card_html_capitals]
   = Inr \<lparr>monthToPairs = [(js ''2025-01'',
             [\<lparr>artist = js ''Pink Floyd'', album = js ''The Dark Side of the Moon''\<rparr>,
              \<lparr>artist = js ''PINK FLOYD'', album = js ''THE DARK SIDE OF THE MOON''\<rparr>])],
          successfulEmailUids = [7, 8], warnings = []\<rparr>"
  by (simp add: eval_collect js_def)

lemma ex_two_mails_buckets:
  "resolver_buckets ascii_toLowerCase
      \<lparr>monthToPairs = [(js ''2025-01'',
             [\<lparr>artist = js ''Pink Floyd'', album = js ''The Dark Side of the Moon''\<rparr>,
              \<lparr>artist = js ''PINK FLOYD'', album = js ''THE DARK SIDE OF THE MOON''\<rparr>])],
          successfulEmailUids = [7, 8], warnings = []\<rparr>
   = [(js ''2025-01'', [\<lparr>artist = js ''Pink Floyd'', album = js ''The Dark Side of the Moon''\<rparr>])]"
  by (simp add: eval_collect js_def)

lemma ex_card_and_empty_main:
  "main_collect ascii_toLowerCase sample_base64 card_document
     [sample_mail (Integer 7) card_html, sample_mail (Integer 9) (js ''<html></html>'')]
   = Inr \<lparr>monthToPairs = [(js ''2025-01'',
             [\<lparr>artist = js ''Pink Floyd'', album = js ''The Dark Side of the Moon''\<rparr>])],
          successfulEmailUids = [7], warnings = [Integer 9]\<rparr>"
  by (simp add: eval_collect)

lemma ex_card_and_empty_sync:
  "sync_collect ascii_toLowerCase card_document
     [sample_mail (Integer 7) card_html, sample_mail (Integer 9) (js ''<html></html>'')]
   = Inr \<lparr>monthToPairs = [(js ''2025-01'',
             [\<lparr>artist = js ''Pink Floyd'', album = js ''The Dark Side of the Moon''\<rparr>])],
          successfulEmailUids = [7], warnings = [Integer 9]\<rparr>"
  by (simp add: eval_collect)

lemma loop_returns:
  "(\<And>st mail. \<exists>st'. step st mail = Inr st') \<Longrightarrow> \<exists>st'. for_each_mail step st mails = Inr st'"
proof (induction mails arbitrary: st)
  case Nil
  then show ?case by simp
next
  case (Cons mail rest)
  obtain st1 where "step st mail = Inr st1" using Cons.prems by blast
  then show ?case using Cons.IH [OF Cons.prems] by simp
qed

lemma main_collect_returns: "\<exists>st. main_collect lc b64 C emails = Inr st"
  unfolding main_collect_def
proof (rule loop_returns)
  fix st :: aggregation and mail :: email
  obtain ps where "extractAlbumArtistPairs lc C (Some (mail_body mail)) = Inr ps"
    using extract_value by blast
  then show "\<exists>st'. main_step lc b64 C st mail = Inr st'"
    by (simp add: main_step_def)
qed

lemma sync_collect_returns: "\<exists>st. sync_collect lc C emails = Inr st"
  unfolding sync_collect_def
proof (rule loop_returns)
  fix st :: aggregation and mail :: email
  show "\<exists>st'. sync_step lc C st mail = Inr st'"
    by (simp add: sync_step_def parser_extract_value)
qed

lemma empty_months: "distinct (map fst (monthToPairs empty_aggregation))"
  by (simp add: empty_aggregation_def)

lemma collected_once:
  assumes l: "for_each_mail (step_of skip ex lc) empty_aggregation emails = Inr st"
    and m: "mail \<in> set emails" "\<not> skip mail" "ex mail = Inr raw" "p \<in> set raw"
  shows "\<exists>bucket. (formatMonthYYYYMM (mail_date mail), bucket) \<in> set (resolver_buckets lc st)
           \<and> length (filter (\<lambda>q. pair_key lc q = pair_key lc p) bucket) = 1"
proof (rule bucket_handed_over)
  show "distinct (map fst (monthToPairs st))"
    using l empty_months by (rule loop_months)
  show "pair_key lc p \<in> pair_key lc ` set (bucket_of st (formatMonthYYYYMM (mail_date mail)))"
    using loop_keys [OF l m(1,2,3)] m(4) by blast
qed

text \<open>
  C3. Both loops over the emails return. For every email of the sequence that passes
  the check of the loop and every pair its extraction holds, the list handed to the
  Catalog Resolver for the month of that email has exactly one entry with the pair's
  case-insensitive key, however many emails of the month held the pair and in whatever
  letter case; and each month has one list.
\<close>

theorem month_bucket_holds_pair_once:
  "(\<exists>st. main_collect toLowerCase base64_utf8 C emails = Inr st)
   \<and> (\<exists>st. sync_collect toLowerCase C emails = Inr st)
   \<and> (main_collect toLowerCase base64_utf8 C emails = Inr st1 \<and> mail1 \<in> set emails
        \<and> \<not> main_skips toLowerCase base64_utf8 mail1
        \<and> extractAlbumArtistPairs toLowerCase C (Some (mail_body mail1)) = Inr raw1 \<and> p1 \<in> set raw1
      \<longrightarrow> distinct (map fst (resolver_buckets toLowerCase st1))
          \<and> (\<exists>bucket. (formatMonthYYYYMM (mail_date mail1), bucket) \<in> set (resolver_buckets toLowerCase st1)
                \<and> length (filter (\<lambda>q. pair_key toLowerCase q = pair_key toLowerCase p1) bucket) = 1))
   \<and> (sync_collect toLowerCase C emails = Inr st2 \<and> mail2 \<in> set emails
        \<and> \<not> sync_skips toLowerCase mail2
        \<and> parser_extractAlbumArtistPairs toLowerCase C (Some (mail_body mail2)) = Inr raw2 \<and> p2 \<in> set raw2
      \<longrightarrow> distinct (map fst (resolver_buckets toLowerCase st2))
          \<and> (\<exists>bucket. (formatMonthYYYYMM (mail_date mail2), bucket) \<in> set (resolver_buckets toLowerCase st2)
                \<and> length (filter (\<lambda>q. pair_key toLowerCase q = pair_key toLowerCase p2) bucket) = 1))"
proof (intro conjI impI)
  show "\<exists>st. main_collect toLowerCase base64_utf8 C emails = Inr st"
    by (rule main_collect_returns)
  show "\<exists>st. sync_collect toLowerCase C emails = Inr st"
    by (rule sync_collect_returns)
next
  assume h: "main_collect toLowerCase base64_utf8 C emails = Inr st1 \<and> mail1 \<in> set emails
        \<and> \<not> main_skips toLowerCase base64_utf8 mail1
        \<and> extractAlbumArtistPairs toLowerCase C (Some (mail_body mail1)) = Inr raw1 \<and> p1 \<in> set raw1"
  then have l: "for_each_mail (step_of (main_skips toLowerCase base64_utf8)
        (\<lambda>mail. extractAlbumArtistPairs toLowerCase C (Some (mail_body mail))) toLowerCase)
        empty_aggregation emails = Inr st1"
    by (simp add: main_collect_def main_step_of)
  show "distinct (map fst (resolver_buckets toLowerCase st1))"
    using loop_months [OF l empty_months] by (rule resolver_buckets_months)
  show "\<exists>bucket. (formatMonthYYYYMM (mail_date mail1), bucket) \<in> set (resolver_buckets toLowerCase st1)
                \<and> length (filter (\<lambda>q. pair_key toLowerCase q = pair_key toLowerCase p1) bucket) = 1"
    using collected_once [OF l, of mail1 raw1 p1] h by blast
next
  assume h: "sync_collect toLowerCase C emails = Inr st2 \<and> mail2 \<in> set emails
        \<and> \<not> sync_skips toLowerCase mail2
        \<and> parser_extractAlbumArtistPairs toLowerCase C (Some (mail_body mail2)) = Inr raw2 \<and> p2 \<in> set raw2"
  then have l: "for_each_mail (step_of (sync_skips toLowerCase)
        (\<lambda>mail. parser_extractAlbumArtistPairs toLowerCase C (Some (mail_body mail))) toLowerCase)
        empty_aggregation emails = Inr st2"
    by (simp add: sync_collect_def sync_step_of)
  show "distinct (map fst (resolver_buckets toLowerCase st2))"
    using loop_months [OF l empty_months] by (rule resolver_buckets_months)
  show "\<exists>bucket. (formatMonthYYYYMM (mail_date mail2), bucket) \<in> set (resolver_buckets toLowerCase st2)
                \<and> length (filter (\<lambda>q. pair_key toLowerCase q = pair_key toLowerCase p2) bucket) = 1"
    using collected_once [OF l, of mail2 raw2 p2] h by blast
qed


theorem month_bucket_holds_pair_once_witness:
  "main_collect ascii_toLowerCase sample_base64 card_document [sample_mail (Integer 7) card_html, sample_mail (Integer 8) card_html_capitals] = Inr 
       \<lparr>monthToPairs = [(js ''2025-01'',
          [\<lparr>artist = js ''Pink Floyd'', album = js ''The Dark Side of the Moon''\<rparr>,
           \<lparr>artist = js ''PINK FLOYD'', album = js ''THE DARK SIDE OF THE MOON''\<rparr>])],
        successfulEmailUids = [7, 8], warnings = []\<rparr>
   \<and> sample_mail (Integer 8) card_html_capitals \<in> set [sample_mail (Integer 7) card_html, sample_mail (Integer 8) card_html_capitals]
   \<and> \<not> main_skips ascii_toLowerCase sample_base64 (sample_mail (Integer 8) card_html_capitals)
   \<and> extractAlbumArtistPairs ascii_toLowerCase card_document
         (Some (mail_body (sample_mail (Integer 8) card_html_capitals)))
       = Inr [\<lparr>artist = js ''PINK FLOYD'', album = js ''THE DARK SIDE OF THE MOON''\<rparr>]
   \<and> sync_collect ascii_toLowerCase card_document [sample_mail (Integer 7) card_html, sample_mail (Integer 8) card_html_capitals] = Inr 
       \<lparr>monthToPairs = [(js ''2025-01'',
          [\<lparr>artist = js ''Pink Floyd'', album = js ''The Dark Side of the Moon''\<rparr>,
           \<lparr>artist = js ''PINK FLOYD'', album = js ''THE DARK SIDE OF THE MOON''\<rparr>])],
        successfulEmailUids = [7, 8], warnings = []\<rparr>
   \<and> \<not> sync_skips ascii_toLowerCase (sample_mail (Integer 8) card_html_capitals)
   \<and> parser_extractAlbumArtistPairs ascii_toLowerCase card_document
         (Some (mail_body (sample_mail (Integer 8) card_html_capitals)))
       = Inr [\<lparr>artist = js ''PINK FLOYD'', album = js ''THE DARK SIDE OF THE MOON''\<rparr>]
   \<and> distinct (map fst (resolver_buckets ascii_toLowerCase 
       \<lparr>monthToPairs = [(js ''2025-01'',
          [\<lparr>artist = js ''Pink Floyd'', album = js ''The Dark Side of the Moon''\<rparr>,
           \<lparr>artist = js ''PINK FLOYD'', album = js ''THE DARK SIDE OF THE MOON''\<rparr>])],
        successfulEmailUids = [7, 8], warnings = []\<rparr>))
   \<and> (\<exists>bucket. (formatMonthYYYYMM (mail_date (sample_mail (Integer 8) card_html_capitals)), bucket) \<in> set (resolver_buckets ascii_toLowerCase 
       \<lparr>monthToPairs = [(js ''2025-01'',
          [\<lparr>artist = js ''Pink Floyd'', album = js ''The Dark Side of the Moon''\<rparr>,
           \<lparr>artist = js ''PINK FLOYD'', album = js ''THE DARK SIDE OF THE MOON''\<rparr>])],
        successfulEmailUids = [7, 8], warnings = []\<rparr>)
         \<and> length (filter (\<lambda>q. pair_key ascii_toLowerCase q = pair_key ascii_toLowerCase \<lparr>artist = js ''PINK FLOYD'', album = js ''THE DARK SIDE OF THE MOON''\<rparr>) bucket) = 1)
   \<and> resolver_buckets ascii_toLowerCase 
       \<lparr>monthToPairs = [(js ''2025-01'',
          [\<lparr>artist = js ''Pink Floyd'', album = js ''The Dark Side of the Moon''\<rparr>,
           \<lparr>artist = js ''PINK FLOYD'', album = js ''THE DARK SIDE OF THE MOON''\<rparr>])],
        successfulEmailUids = [7, 8], warnings = []\<rparr> = [(js ''2025-01'', [\<lparr>artist = js ''Pink Floyd'', album = js ''The Dark Side of the Moon''\<rparr>])]"
  using month_bucket_holds_pair_once [of ascii_toLowerCase sample_base64 card_document "[sample_mail (Integer 7) card_html, sample_mail (Integer 8) card_html_capitals]"
      "\<lparr>monthToPairs = [(js ''2025-01'',
          [\<lparr>artist = js ''Pink Floyd'', album = js ''The Dark Side of the Moon''\<rparr>,
           \<lparr>artist = js ''PINK FLOYD'', album = js ''THE DARK SIDE OF THE MOON''\<rparr>])],
        successfulEmailUids = [7, 8], warnings = []\<rparr>" "sample_mail (Integer 8) card_html_capitals" "[\<lparr>artist = js ''PINK FLOYD'', album = js ''THE DARK SIDE OF THE MOON''\<rparr>]" "\<lparr>artist = js ''PINK FLOYD'', album = js ''THE DARK SIDE OF THE MOON''\<rparr>" "\<lparr>monthToPairs = [(js ''2025-01'',
          [\<lparr>artist = js ''Pink Floyd'', album = js ''The Dark Side of the Moon''\<rparr>,
           \<lparr>artist = js ''PINK FLOYD'', album = js ''THE DARK SIDE OF THE MOON''\<rparr>])],
        successfulEmailUids = [7, 8], warnings = []\<rparr>" "sample_mail (Integer 8) card_html_capitals" "[\<lparr>artist = js ''PINK FLOYD'', album = js ''THE DARK SIDE OF THE MOON''\<rparr>]" "\<lparr>artist = js ''PINK FLOYD'', album = js ''THE DARK SIDE OF THE MOON''\<rparr>"]
    ex_two_mails_main ex_two_mails_sync ex_accept_main [of "Integer 8" card_html_capitals]
    ex_accept_sync [of "Integer 8" card_html_capitals] ex_card ex_two_mails_buckets
  by (simp add: sample_mail_sel)

lemma main_uid_source:
  assumes "main_collect lc b64 C emails = Inr st" and "u \<in> set (successfulEmailUids st)"
  shows "\<exists>mail \<in> set emails. mail_uid mail = Integer u \<and> \<not> main_skips lc b64 mail
           \<and> (\<exists>raw. extractAlbumArtistPairs lc C (Some (mail_body mail)) = Inr raw
                  \<and> uniqueBy raw (pair_key lc) \<noteq> [])"
proof -
  have l: "for_each_mail (step_of (main_skips lc b64)
        (\<lambda>mail. extractAlbumArtistPairs lc C (Some (mail_body mail))) lc)
        empty_aggregation emails = Inr st"
    using assms(1) by (simp add: main_collect_def main_step_of)
  show ?thesis using loop_uids [OF l assms(2)] by (simp add: empty_aggregation_def)
qed

lemma sync_uid_source:
  assumes "sync_collect lc C emails = Inr st" and "u \<in> set (successfulEmailUids st)"
  shows "\<exists>mail \<in> set emails. mail_uid mail = Integer u \<and> \<not> sync_skips lc mail
           \<and> (\<exists>raw. parser_extractAlbumArtistPairs lc C (Some (mail_body mail)) = Inr raw
                  \<and> uniqueBy raw (pair_key lc) \<noteq> [])"
proof -
  have l: "for_each_mail (step_of (sync_skips lc)
        (\<lambda>mail. parser_extractAlbumArtistPairs lc C (Some (mail_body mail))) lc)
        empty_aggregation emails = Inr st"
    using assms(1) by (simp add: sync_collect_def sync_step_of)
  show ?thesis using loop_uids [OF l assms(2)] by (simp add: empty_aggregation_def)
qed

lemma contract_positive:
  "list_all uid_contract emails \<Longrightarrow> mail \<in> set emails \<Longrightarrow> mail_uid mail = Integer u \<Longrightarrow> 0 < u"
  by (auto simp: list_all_iff uid_contract_def)

text \<open>
  C8. With the UIDs the mailbox collaborator hands over, each a positive integer or
  \<^verbatim>\<open>null\<close>, a UID is in the archive set only if it is a positive integer and some email
  of the sequence has it as its UID, passed the check of the loop and has a non-empty
  deduplicated extraction. An email whose deduplicated extraction is empty changes
  nothing but the log of warnings, and a UID whose emails all have an empty
  deduplicated extraction is not in the archive set. This holds for the loop of the
  script and for the loop of the playlist sync.
\<close>

theorem uid_archived_only_for_pairs:
  "(main_collect toLowerCase base64_utf8 C emails = Inr st1 \<and> u1 \<in> set (successfulEmailUids st1)
      \<longrightarrow> (\<exists>mail \<in> set emails. mail_uid mail = Integer u1
             \<and> \<not> main_skips toLowerCase base64_utf8 mail
             \<and> (\<exists>raw. extractAlbumArtistPairs toLowerCase C (Some (mail_body mail)) = Inr raw
                    \<and> uniqueBy raw (pair_key toLowerCase) \<noteq> [])))
   \<and> (sync_collect toLowerCase C emails = Inr st2 \<and> u2 \<in> set (successfulEmailUids st2)
      \<longrightarrow> (\<exists>mail \<in> set emails. mail_uid mail = Integer u2
             \<and> \<not> sync_skips toLowerCase mail
             \<and> (\<exists>raw. parser_extractAlbumArtistPairs toLowerCase C (Some (mail_body mail)) = Inr raw
                    \<and> uniqueBy raw (pair_key toLowerCase) \<noteq> [])))
   \<and> (list_all uid_contract emails
        \<and> main_collect toLowerCase base64_utf8 C emails = Inr st1 \<and> u1 \<in> set (successfulEmailUids st1)
      \<longrightarrow> 0 < u1)
   \<and> (list_all uid_contract emails
        \<and> sync_collect toLowerCase C emails = Inr st2 \<and> u2 \<in> set (successfulEmailUids st2)
      \<longrightarrow> 0 < u2)
   \<and> (uniqueBy rawPairs (pair_key toLowerCase) = []
      \<longrightarrow> collect_pairs toLowerCase st mail0 rawPairs = st\<lparr>warnings := warnings st @ [mail_uid mail0]\<rparr>)
   \<and> (main_collect toLowerCase base64_utf8 C emails = Inr st1
        \<and> (\<forall>mail \<in> set emails. mail_uid mail = Integer v1 \<longrightarrow>
              (\<exists>raw. extractAlbumArtistPairs toLowerCase C (Some (mail_body mail)) = Inr raw
                    \<and> uniqueBy raw (pair_key toLowerCase) = []))
      \<longrightarrow> v1 \<notin> set (successfulEmailUids st1))
   \<and> (sync_collect toLowerCase C emails = Inr st2
        \<and> (\<forall>mail \<in> set emails. mail_uid mail = Integer v2 \<longrightarrow>
              (\<exists>raw. parser_extractAlbumArtistPairs toLowerCase C (Some (mail_body mail)) = Inr raw
                    \<and> uniqueBy raw (pair_key toLowerCase) = []))
      \<longrightarrow> v2 \<notin> set (successfulEmailUids st2))"
proof (intro conjI impI)
  assume h: "main_collect toLowerCase base64_utf8 C emails = Inr st1 \<and> u1 \<in> set (successfulEmailUids st1)"
  then show "\<exists>mail \<in> set emails. mail_uid mail = Integer u1
             \<and> \<not> main_skips toLowerCase base64_utf8 mail
             \<and> (\<exists>raw. extractAlbumArtistPairs toLowerCase C (Some (mail_body mail)) = Inr raw
                    \<and> uniqueBy raw (pair_key toLowerCase) \<noteq> [])"
    using main_uid_source by blast
next
  assume h: "sync_collect toLowerCase C emails = Inr st2 \<and> u2 \<in> set (successfulEmailUids st2)"
  then show "\<exists>mail \<in> set emails. mail_uid mail = Integer u2
             \<and> \<not> sync_skips toLowerCase mail
             \<and> (\<exists>raw. parser_extractAlbumArtistPairs toLowerCase C (Some (mail_body mail)) = Inr raw
                    \<and> uniqueBy raw (pair_key toLowerCase) \<noteq> [])"
    using sync_uid_source by blast
next
  assume h: "list_all uid_contract emails
        \<and> main_collect toLowerCase base64_utf8 C emails = Inr st1 \<and> u1 \<in> set (successfulEmailUids st1)"
  then obtain mail where "mail \<in> set emails" and "mail_uid mail = Integer u1"
    using main_uid_source [of toLowerCase base64_utf8 C emails st1 u1] by blast
  then show "0 < u1" using h contract_positive by blast
next
  assume h: "list_all uid_contract emails
        \<and> sync_collect toLowerCase C emails = Inr st2 \<and> u2 \<in> set (successfulEmailUids st2)"
  then obtain mail where "mail \<in> set emails" and "mail_uid mail = Integer u2"
    using sync_uid_source [of toLowerCase C emails st2 u2] by blast
  then show "0 < u2" using h contract_positive by blast
next
  assume "uniqueBy rawPairs (pair_key toLowerCase) = []"
  then show "collect_pairs toLowerCase st mail0 rawPairs = st\<lparr>warnings := warnings st @ [mail_uid mail0]\<rparr>"
    by (simp add: collect_pairs_def)
next
  assume h: "main_collect toLowerCase base64_utf8 C emails = Inr st1
        \<and> (\<forall>mail \<in> set emails. mail_uid mail = Integer v1 \<longrightarrow>
              (\<exists>raw. extractAlbumArtistPairs toLowerCase C (Some (mail_body mail)) = Inr raw
                    \<and> uniqueBy raw (pair_key toLowerCase) = []))"
  show "v1 \<notin> set (successfulEmailUids st1)"
  proof
    assume "v1 \<in> set (successfulEmailUids st1)"
    then obtain mail raw where "mail \<in> set emails" and "mail_uid mail = Integer v1"
      and "extractAlbumArtistPairs toLowerCase C (Some (mail_body mail)) = Inr raw"
      and "uniqueBy raw (pair_key toLowerCase) \<noteq> []"
      using main_uid_source [of toLowerCase base64_utf8 C emails st1 v1] h by blast
    then show False using h by fastforce
  qed
next
  assume h: "sync_collect toLowerCase C emails = Inr st2
        \<and> (\<forall>mail \<in> set emails. mail_uid mail = Integer v2 \<longrightarrow>
              (\<exists>raw. parser_extractAlbumArtistPairs toLowerCase C (Some (mail_body mail)) = Inr raw
                    \<and> uniqueBy raw (pair_key toLowerCase) = []))"
  show "v2 \<notin> set (successfulEmailUids st2)"
  proof
    assume "v2 \<in> set (successfulEmailUids st2)"
    then obtain mail raw where "mail \<in> set emails" and "mail_uid mail = Integer v2"
      and "parser_extractAlbumArtistPairs toLowerCase C (Some (mail_body mail)) = Inr raw"
      and "uniqueBy raw (pair_key toLowerCase) \<noteq> []"
      using sync_uid_source [of toLowerCase C emails st2 v2] h by blast
    then show False using h by fastforce
  qed
qed

lemma ex_contract: "list_all uid_contract [sample_mail (Integer 7) card_html, sample_mail (Integer 9) (js ''<html></html>'')]"
  by (simp add: uid_contract_def sample_mail_sel)

lemma ex_empty_extraction:
  "\<forall>mail \<in> set [sample_mail (Integer 7) card_html, sample_mail (Integer 9) (js ''<html></html>'')]. mail_uid mail = Integer 9 \<longrightarrow>
     (\<exists>raw. extractAlbumArtistPairs ascii_toLowerCase card_document (Some (mail_body mail)) = Inr raw
           \<and> uniqueBy raw (pair_key ascii_toLowerCase) = [])"
  "\<forall>mail \<in> set [sample_mail (Integer 7) card_html, sample_mail (Integer 9) (js ''<html></html>'')]. mail_uid mail = Integer 9 \<longrightarrow>
     (\<exists>raw. parser_extractAlbumArtistPairs ascii_toLowerCase card_document (Some (mail_body mail)) = Inr raw
           \<and> uniqueBy raw (pair_key ascii_toLowerCase) = [])"
  by (simp_all add: sample_mail_sel ex_html_extract uniqueBy_def)

text \<open>An email with a card and UID 7, and an email without any pair and UID 9.\<close>

theorem uid_archived_only_for_pairs_witness:
  "list_all uid_contract [sample_mail (Integer 7) card_html, sample_mail (Integer 9) (js ''<html></html>'')]
   \<and> main_collect ascii_toLowerCase sample_base64 card_document [sample_mail (Integer 7) card_html, sample_mail (Integer 9) (js ''<html></html>'')] = Inr
       \<lparr>monthToPairs = [(js ''2025-01'',
          [\<lparr>artist = js ''Pink Floyd'', album = js ''The Dark Side of the Moon''\<rparr>])],
        successfulEmailUids = [7], warnings = [Integer 9]\<rparr>
   \<and> sync_collect ascii_toLowerCase card_document [sample_mail (Integer 7) card_html, sample_mail (Integer 9) (js ''<html></html>'')] = Inr
       \<lparr>monthToPairs = [(js ''2025-01'',
          [\<lparr>artist = js ''Pink Floyd'', album = js ''The Dark Side of the Moon''\<rparr>])],
        successfulEmailUids = [7], warnings = [Integer 9]\<rparr>
   \<and> 7 \<in> set (successfulEmailUids
       \<lparr>monthToPairs = [(js ''2025-01'',
          [\<lparr>artist = js ''Pink Floyd'', album = js ''The Dark Side of the Moon''\<rparr>])],
        successfulEmailUids = [7], warnings = [Integer 9]\<rparr>)
   \<and> (\<exists>mail \<in> set [sample_mail (Integer 7) card_html, sample_mail (Integer 9) (js ''<html></html>'')]. mail_uid mail = Integer 7
          \<and> \<not> main_skips ascii_toLowerCase sample_base64 mail
          \<and> (\<exists>raw. extractAlbumArtistPairs ascii_toLowerCase card_document (Some (mail_body mail)) = Inr raw
                 \<and> uniqueBy raw (pair_key ascii_toLowerCase) \<noteq> []))
   \<and> (\<exists>mail \<in> set [sample_mail (Integer 7) card_html, sample_mail (Integer 9) (js ''<html></html>'')]. mail_uid mail = Integer 7
          \<and> \<not> sync_skips ascii_toLowerCase mail
          \<and> (\<exists>raw. parser_extractAlbumArtistPairs ascii_toLowerCase card_document (Some (mail_body mail)) = Inr raw
                 \<and> uniqueBy raw (pair_key ascii_toLowerCase) \<noteq> []))
   \<and> 0 < (7 :: int)
   \<and> extractAlbumArtistPairs ascii_toLowerCase card_document (Some (js ''<html></html>'')) = Inr []
   \<and> parser_extractAlbumArtistPairs ascii_toLowerCase card_document (Some (js ''<html></html>'')) = Inr []
   \<and> 9 \<notin> set (successfulEmailUids
       \<lparr>monthToPairs = [(js ''2025-01'',
          [\<lparr>artist = js ''Pink Floyd'', album = js ''The Dark Side of the Moon''\<rparr>])],
        successfulEmailUids = [7], warnings = [Integer 9]\<rparr>)
   \<and> uniqueBy [] (pair_key ascii_toLowerCase) = []
   \<and> collect_pairs ascii_toLowerCase empty_aggregation (sample_mail (Integer 9) (js ''<html></html>'')) []
       = empty_aggregation\<lparr>warnings := warnings empty_aggregation @ [Integer 9]\<rparr>"
  using uid_archived_only_for_pairs [of ascii_toLowerCase sample_base64 card_document "[sample_mail (Integer 7) card_html, sample_mail (Integer 9) (js ''<html></html>'')]"
      "\<lparr>monthToPairs = [(js ''2025-01'',
          [\<lparr>artist = js ''Pink Floyd'', album = js ''The Dark Side of the Moon''\<rparr>])],
        successfulEmailUids = [7], warnings = [Integer 9]\<rparr>" 7
      "\<lparr>monthToPairs = [(js ''2025-01'',
          [\<lparr>artist = js ''Pink Floyd'', album = js ''The Dark Side of the Moon''\<rparr>])],
        successfulEmailUids = [7], warnings = [Integer 9]\<rparr>" 7 "[]" empty_aggregation "sample_mail (Integer 9) (js ''<html></html>'')" 9 9]
    ex_card_and_empty_main ex_card_and_empty_sync ex_contract ex_empty_extraction
  by (simp add: sample_mail_sel uniqueBy_def ex_html_extract)

section \<open>The reordering request\<close>

lemma reorder_request_is_identity:
  "r \<in> set (put_requests (reorderPlaylistByDateAdded pages)) \<Longrightarrow>
   length xs = length (trackUris (reorderPlaylistByDateAdded pages)) \<Longrightarrow> apply_reorder r xs = xs"
  by (auto simp: reorderPlaylistByDateAdded_def apply_reorder_def Let_def split: if_splits)

text \<open>
  C6 does not hold of the code. For the playlist of the track \<^verbatim>\<open>spotify:track:A\<close> added at
  time 1 and the track \<^verbatim>\<open>spotify:track:B\<close> added at time 2, the function computes the
  order B, A, but the one request it sends carries only the range 0, 2, 2: the remote
  end moves the whole playlist before its own end, and the order stays A, B.
\<close>

theorem reorder_sends_no_ordering:
  "trackUris (reorderPlaylistByDateAdded
      [[\<lparr>item_uri = Some (js ''spotify:track:A''), item_added_at = 1\<rparr>,
        \<lparr>item_uri = Some (js ''spotify:track:B''), item_added_at = 2\<rparr>]])
     = [js ''spotify:track:B'', js ''spotify:track:A'']
   \<and> put_requests (reorderPlaylistByDateAdded
      [[\<lparr>item_uri = Some (js ''spotify:track:A''), item_added_at = 1\<rparr>,
        \<lparr>item_uri = Some (js ''spotify:track:B''), item_added_at = 2\<rparr>]])
     = [\<lparr>range_start = 0, range_length = 2, insert_before = 2\<rparr>]
   \<and> apply_reorder \<lparr>range_start = 0, range_length = 2, insert_before = 2\<rparr>
        [js ''spotify:track:A'', js ''spotify:track:B'']
     = [js ''spotify:track:A'', js ''spotify:track:B'']"
  by (simp add: reorderPlaylistByDateAdded_def apply_reorder_def List.map_filter_def Let_def)

end
